theory Spec2Isabelle
  imports Main
begin

section \<open>The MLFQ scheduler simulation of note6/mlfq/mlfq\_simulation.c\<close>

text \<open>
  The C program keeps an array of \<open>Process\<close> structs, three global \<open>Queue\<close>s whose
  slots hold pointers into that array, and the global clock. The embedding keeps the
  array as a list, a pointer \<open>&processes[i]\<close> as the index \<open>i\<close>, and the used part
  \<open>processes[0 .. count-1]\<close> of a queue as a list (so \<open>count\<close> is its length; the
  slots beyond \<open>count\<close> are never read by the program). C's \<open>int\<close> is modelled by
  \<open>int\<close>: the simulated times of the program stay far below the range of a machine
  integer, and signed overflow has no defined behaviour in C.
\<close>

subsection \<open>Data\<close>

definition MAX_PROCESSES :: nat where
  "MAX_PROCESSES = 10"

definition NUM_QUEUES :: nat where
  "NUM_QUEUES = 3"

record Process =
  proc_id :: int
  arrival_time :: int
  burst_time :: int
  remaining_time :: int
  current_queue :: nat
  time_in_current_quantum :: int
  completion_time :: int
  turnaround_time :: int
  waiting_time :: int
  first_run_time :: int
  is_io_bound :: int

record Queue =
  processes :: "nat list"
  time_quantum :: int

definition count :: "Queue \<Rightarrow> nat" where
  "count Q = length (processes Q)"

text \<open>
  The lines the loop and the scheduler print, one constructor for each \<open>printf\<close>,
  with the values printed in the order of the format (times first; a process is printed
  by its \<open>id\<close>). The banner printed before the loop is left out.
\<close>

datatype event =
    Arrives int int int bool
  | Boost int
  | Running int int nat int int
  | Completed int int
  | Yields int int nat
  | Demoted int int nat
  | Returned int int nat
  | Idle int
  | Error

text \<open>
  The globals (\<open>queues\<close>, \<open>current_time\<close>, \<open>boost_interval\<close>, \<open>last_boost_time\<close>),
  the array handed to \<open>run_mlfq_simulation\<close> (its length is the parameter \<open>n\<close>), the
  local counter \<open>completed\<close> and the standard output. The field \<open>id\<close> of a process
  is \<open>proc_id\<close> here; queue levels and the counter only ever hold values from 0
  upwards and are natural numbers.
\<close>

record State =
  procs :: "Process list"
  queues :: "Queue list"
  current_time :: int
  boost_interval :: int
  last_boost_time :: int
  completed :: nat
  trace :: "event list"

text \<open>C's division truncates towards zero.\<close>

definition c_div :: "int \<Rightarrow> int \<Rightarrow> int" where
  "c_div a b = (if (a < 0) = (b < 0) then \<bar>a\<bar> div \<bar>b\<bar> else - (\<bar>a\<bar> div \<bar>b\<bar>))"

subsection \<open>The queue ladder\<close>

definition init_queues :: "State \<Rightarrow> State" where
  "init_queues s =
     s\<lparr>queues := map (\<lambda>i. \<lparr>processes = [], time_quantum = (2 ^ i) * 10\<rparr>) [0..<NUM_QUEUES]\<rparr>"

definition add_process_to_queue :: "nat \<Rightarrow> nat \<Rightarrow> State \<Rightarrow> State" where
  "add_process_to_queue p queue_level s =
     (if count (queues s ! queue_level) < MAX_PROCESSES then
        s\<lparr>queues := (queues s)[queue_level :=
               (queues s ! queue_level)\<lparr>processes := processes (queues s ! queue_level) @ [p]\<rparr>],
          procs := (procs s)[p :=
               (procs s ! p)\<lparr>current_queue := queue_level, time_in_current_quantum := 0\<rparr>]\<rparr>
      else s)"

text \<open>
  One round of the outer loop of the boost (lines 62-67): every reference of level \<open>q\<close>
  is handed to \<open>add_process_to_queue\<close> for level 0, then the level is emptied. The
  level read is never level 0, so the list read at the start is the list the C loop reads.
\<close>

definition boost_level :: "nat \<Rightarrow> State \<Rightarrow> State" where
  "boost_level q s =
     (let s' = fold (\<lambda>p. add_process_to_queue p 0) (processes (queues s ! q)) s
      in s'\<lparr>queues := (queues s')[q := (queues s' ! q)\<lparr>processes := []\<rparr>]\<rparr>)"

definition priority_boost :: "State \<Rightarrow> State" where
  "priority_boost s =
     (if current_time s - last_boost_time s \<ge> boost_interval s then
        (let s1 = s\<lparr>trace := trace s @ [Boost (current_time s)]\<rparr>;
             s2 = fold boost_level [1..<NUM_QUEUES] s1
         in s2\<lparr>last_boost_time := current_time s2\<rparr>)
      else s)"

definition highest_nonempty :: "State \<Rightarrow> nat option" where
  "highest_nonempty s = List.find (\<lambda>q. count (queues s ! q) > 0) [0..<NUM_QUEUES]"

definition get_next_process :: "State \<Rightarrow> nat option \<times> State" where
  "get_next_process s =
     (let s1 = priority_boost s in
      case highest_nonempty s1 of
        None \<Rightarrow> (None, s1)
      | Some q \<Rightarrow>
          (Some (hd (processes (queues s1 ! q))),
           s1\<lparr>queues := (queues s1)[q :=
                 (queues s1 ! q)\<lparr>processes := tl (processes (queues s1 ! q))\<rparr>]\<rparr>))"

subsection \<open>The scheduler loop\<close>

definition setup_processes :: "State \<Rightarrow> State" where
  "setup_processes s =
     s\<lparr>procs := map (\<lambda>P. P\<lparr>remaining_time := burst_time P, current_queue := 0,
                            time_in_current_quantum := 0, first_run_time := -1\<rparr>) (procs s)\<rparr>"

definition check_arrival :: "nat \<Rightarrow> State \<Rightarrow> State" where
  "check_arrival i s =
     (if arrival_time (procs s ! i) = current_time s then
        add_process_to_queue i 0
          (s\<lparr>trace := trace s @ [Arrives (current_time s) (proc_id (procs s ! i))
                                   (burst_time (procs s ! i)) (is_io_bound (procs s ! i) \<noteq> 0)]\<rparr>)
      else s)"

definition check_arrivals :: "State \<Rightarrow> State" where
  "check_arrivals s = fold check_arrival [0..<length (procs s)] s"

definition mark_first_run :: "nat \<Rightarrow> State \<Rightarrow> State" where
  "mark_first_run p s =
     (if first_run_time (procs s ! p) = -1 then
        s\<lparr>procs := (procs s)[p := (procs s ! p)\<lparr>first_run_time := current_time s\<rparr>]\<rparr>
      else s)"

text \<open>Lines 133-144: how long the dispatched process runs.\<close>

definition compute_run_time :: "Process \<Rightarrow> int \<Rightarrow> int" where
  "compute_run_time P time_slice =
     (if is_io_bound P \<noteq> 0 then
        (if c_div time_slice 5 > remaining_time P then remaining_time P
         else c_div time_slice 5)
      else
        (if remaining_time P < time_slice - time_in_current_quantum P then remaining_time P
         else time_slice - time_in_current_quantum P))"

text \<open>Lines 147-152: the process runs.\<close>

definition run_process :: "nat \<Rightarrow> nat \<Rightarrow> int \<Rightarrow> int \<Rightarrow> State \<Rightarrow> State" where
  "run_process p q time_slice run_time s =
     s\<lparr>trace := trace s @ [Running (current_time s) (proc_id (procs s ! p)) q
                              (remaining_time (procs s ! p)) time_slice],
       current_time := current_time s + run_time,
       procs := (procs s)[p := (procs s ! p)
                  \<lparr>remaining_time := remaining_time (procs s ! p) - run_time,
                   time_in_current_quantum := time_in_current_quantum (procs s ! p) + run_time\<rparr>]\<rparr>"

text \<open>Lines 155-192: what happens to the process after it ran.\<close>

definition after_run :: "nat \<Rightarrow> nat \<Rightarrow> int \<Rightarrow> int \<Rightarrow> State \<Rightarrow> State" where
  "after_run p q time_slice run_time s =
     (if remaining_time (procs s ! p) = 0 then
        s\<lparr>trace := trace s @ [Completed (current_time s) (proc_id (procs s ! p))],
          procs := (procs s)[p := (procs s ! p)
             \<lparr>completion_time := current_time s,
              turnaround_time := current_time s - arrival_time (procs s ! p),
              waiting_time := current_time s - arrival_time (procs s ! p)
                                - burst_time (procs s ! p)\<rparr>],
          completed := completed s + 1\<rparr>
      else if is_io_bound (procs s ! p) \<noteq> 0 \<and> run_time < time_slice then
        s\<lparr>trace := trace s @ [Yields (current_time s) (proc_id (procs s ! p)) q],
          procs := (procs s)[p := (procs s ! p)
             \<lparr>time_in_current_quantum := 0, arrival_time := current_time s + 10\<rparr>]\<rparr>
      else if time_in_current_quantum (procs s ! p) \<ge> time_slice then
        (let next_queue = (if q < NUM_QUEUES - 1 then q + 1 else q) in
         add_process_to_queue p next_queue
           (s\<lparr>trace := trace s @ [Demoted (current_time s) (proc_id (procs s ! p)) next_queue],
              procs := (procs s)[p := (procs s ! p)\<lparr>time_in_current_quantum := 0\<rparr>]\<rparr>))
      else
        add_process_to_queue p q
          (s\<lparr>trace := trace s @ [Returned (current_time s) (proc_id (procs s ! p)) q]\<rparr>))"

definition dispatch :: "nat \<Rightarrow> State \<Rightarrow> State" where
  "dispatch p s =
     (let s1 = mark_first_run p s;
          q = current_queue (procs s1 ! p);
          time_slice = time_quantum (queues s1 ! q);
          run_time = compute_run_time (procs s1 ! p) time_slice
      in after_run p q time_slice run_time (run_process p q time_slice run_time s1))"

text \<open>Lines 199-207: the earliest future arrival of an unfinished process, or -1.\<close>

definition next_arrival_step :: "int \<Rightarrow> Process \<Rightarrow> int \<Rightarrow> int" where
  "next_arrival_step now P next_arrival =
     (if remaining_time P > 0 \<and> arrival_time P > now then
        (if next_arrival = -1 \<or> arrival_time P < next_arrival then arrival_time P
         else next_arrival)
      else next_arrival)"

definition find_next_arrival :: "State \<Rightarrow> int" where
  "find_next_arrival s = fold (next_arrival_step (current_time s)) (procs s) (-1)"

text \<open>Lines 195-216; the flag says that the loop is left by \<open>break\<close>.\<close>

definition idle :: "State \<Rightarrow> State \<times> bool" where
  "idle s =
     (let s1 = s\<lparr>trace := trace s @ [Idle (current_time s)]\<rparr>;
          next_arrival = find_next_arrival s1
      in if next_arrival \<noteq> -1 then (s1\<lparr>current_time := next_arrival\<rparr>, False)
         else (s1\<lparr>trace := trace s1 @ [Error]\<rparr>, True))"

text \<open>
  One round of the \<open>while\<close> loop: the arrivals, the scheduler's choice, and the
  branch on \<open>current_proc != NULL\<close>.
\<close>

fun run_or_idle :: "nat option \<Rightarrow> State \<Rightarrow> State \<times> bool" where
  "run_or_idle (Some p) s = (dispatch p s, False)"
| "run_or_idle None s = idle s"

definition loop_body :: "State \<Rightarrow> State \<times> bool" where
  "loop_body s =
     (case get_next_process (check_arrivals s) of
        (current_proc, s') \<Rightarrow> run_or_idle current_proc s')"

text \<open>
  The loop \<open>while (completed < n)\<close>. Nothing in the program bounds the number of rounds,
  so the loop is a partial function: \<open>None\<close> stands for a run that never returns.
\<close>

partial_function (option) run_loop :: "State \<Rightarrow> State option" where
  "run_loop s =
     (if completed s < length (procs s) then
        (case loop_body s of (s', left) \<Rightarrow> if left then Some s' else run_loop s')
      else Some s)"

declare run_loop.simps [code]

text \<open>
  The same loop, one round at a time: a configuration is the state and the flag
  "the loop has been left by \<open>break\<close>"; \<open>loop_step\<close> leaves a configuration whose
  loop has ended as it is.
\<close>

definition loop_step :: "State \<times> bool \<Rightarrow> State \<times> bool" where
  "loop_step c =
     (if \<not> snd c \<and> completed (fst c) < length (procs (fst c)) then loop_body (fst c) else c)"

definition start_state :: "Process list \<Rightarrow> State \<Rightarrow> State" where
  "start_state ps g = setup_processes (init_queues (g\<lparr>procs := ps, completed := 0\<rparr>))"

definition run_mlfq_simulation :: "Process list \<Rightarrow> State \<Rightarrow> State option" where
  "run_mlfq_simulation ps g = run_loop (start_state ps g)"

primrec rounds :: "nat \<Rightarrow> State \<times> bool \<Rightarrow> State \<times> bool" where
  "rounds 0 c = c"
| "rounds (Suc k) c = loop_step (rounds k c)"

text \<open>The state after \<open>k\<close> rounds of the loop (or at its end, if that comes earlier).\<close>

definition after_rounds :: "nat \<Rightarrow> Process list \<Rightarrow> State \<Rightarrow> State" where
  "after_rounds k ps g = fst (rounds k (start_state ps g, False))"

subsection \<open>The report\<close>

text \<open>
  A row of the table of \<open>print_results\<close>: id, type, burst, response, completion,
  turnaround, waiting. The averages below the table are floating-point sums of these
  columns and are not modelled.
\<close>

definition response_time :: "Process \<Rightarrow> int" where
  "response_time P = first_run_time P - arrival_time P"

definition result_row :: "Process \<Rightarrow> int \<times> bool \<times> int \<times> int \<times> int \<times> int \<times> int" where
  "result_row P =
     (proc_id P, is_io_bound P \<noteq> 0, burst_time P, response_time P, completion_time P,
      turnaround_time P, waiting_time P)"

definition print_results :: "Process list \<Rightarrow> (int \<times> bool \<times> int \<times> int \<times> int \<times> int \<times> int) list" where
  "print_results ps = map result_row ps"

subsection \<open>The program's own input\<close>

text \<open>The globals as their initialisers leave them, and the process list of \<open>main\<close>.\<close>

definition initial_globals :: State where
  "initial_globals =
     \<lparr>procs = [], queues = replicate NUM_QUEUES \<lparr>processes = [], time_quantum = 0\<rparr>,
      current_time = 0, boost_interval = 50, last_boost_time = 0, completed = 0, trace = []\<rparr>"

definition mk_process :: "int \<Rightarrow> int \<Rightarrow> int \<Rightarrow> int \<Rightarrow> Process" where
  "mk_process i arrival burst io =
     \<lparr>proc_id = i, arrival_time = arrival, burst_time = burst, remaining_time = 0,
      current_queue = 0, time_in_current_quantum = 0, completion_time = 0,
      turnaround_time = 0, waiting_time = 0, first_run_time = -1, is_io_bound = io\<rparr>"

definition main_processes :: "Process list" where
  "main_processes =
     [mk_process 1 0 100 0, mk_process 2 0 5 1, mk_process 3 0 5 1,
      mk_process 4 10 80 0, mk_process 5 20 15 1]"

text \<open>Further inputs: process lists a caller may hand to \<open>run_mlfq_simulation\<close>.\<close>

definition io_only :: "Process list" where
  "io_only = [mk_process 1 0 5 1]"

definition io_and_cpu :: "Process list" where
  "io_and_cpu = [mk_process 1 0 5 1, mk_process 2 0 100 0]"

definition cpu_and_io :: "Process list" where
  "cpu_and_io = [mk_process 1 0 100 0, mk_process 2 0 5 1]"

definition eleven :: "Process list" where
  "eleven = map (\<lambda>i. mk_process (int i + 1) 0 20 0) [0..<11]"

definition twelve :: "Process list" where
  "twelve = map (\<lambda>i. mk_process (int i + 1) 0 100 0) [0..<10] @
            [mk_process 11 10 100 0, mk_process 12 20 100 0]"

definition main_start :: State where
  "main_start = start_state main_processes initial_globals"

subsection \<open>Names for the locals of a dispatch\<close>

text \<open>
  The locals \<open>time_slice\<close> and \<open>run_time\<close> of the loop body, as functions of the
  dispatched process and the state in which it is dispatched.
\<close>

definition time_slice :: "nat \<Rightarrow> State \<Rightarrow> int" where
  "time_slice p s = time_quantum (queues s ! current_queue (procs s ! p))"

definition run_time :: "nat \<Rightarrow> State \<Rightarrow> int" where
  "run_time p s = compute_run_time (procs s ! p) (time_slice p s)"

subsection \<open>Predicates on states\<close>

text \<open>
  Process \<open>p\<close> is recorded at level \<open>l\<close> with an unused quantum (what
  \<open>add_process_to_queue\<close> writes into the process).
\<close>

definition at_level :: "nat \<Rightarrow> nat \<Rightarrow> State \<Rightarrow> bool" where
  "at_level l p s \<longleftrightarrow>
     current_queue (procs s ! p) = l \<and> time_in_current_quantum (procs s ! p) = 0"

text \<open>Every reference held by a queue points into the process array.\<close>

definition refs_valid :: "State \<Rightarrow> bool" where
  "refs_valid s \<longleftrightarrow> (\<forall>Q \<in> set (queues s). \<forall>p \<in> set (processes Q). p < length (procs s))"

text \<open>
  Two states in which the scheduler is called with a boost due: in the program's own run
  (round 8, time 66), and in the run on \<open>twelve\<close> (round 6, time 50).
\<close>

definition boost_round_start :: State where
  "boost_round_start = check_arrivals (after_rounds 7 main_processes initial_globals)"

definition overfull_boost_start :: State where
  "overfull_boost_start = check_arrivals (after_rounds 5 twelve initial_globals)"

subsection \<open>The outcomes of a dispatch\<close>

text \<open>The state right after the dispatched process ran (line 152).\<close>

definition ran :: "nat \<Rightarrow> State \<Rightarrow> State" where
  "ran p s =
     run_process p (current_queue (procs s ! p)) (time_slice p s) (run_time p s)
       (mark_first_run p s)"

text \<open>The local \<open>next_queue\<close> of the demotion branch (line 179).\<close>

definition next_queue :: "nat \<Rightarrow> nat" where
  "next_queue q = (if q < NUM_QUEUES - 1 then q + 1 else q)"

text \<open>
  What each of the four branches of lines 155-192 leaves behind, as a relation between
  the state \<open>s\<close> after the run and the state \<open>d\<close> after the branch: the line
  printed, the counter \<open>completed\<close>, the queues and the fields written.
\<close>

definition completes :: "nat \<Rightarrow> State \<Rightarrow> State \<Rightarrow> bool" where
  "completes p s d \<longleftrightarrow>
     trace d = trace s @ [Completed (current_time s) (proc_id (procs s ! p))] \<and>
     completed d = completed s + 1 \<and>
     queues d = queues s \<and>
     completion_time (procs d ! p) = current_time s \<and>
     turnaround_time (procs d ! p) = current_time s - arrival_time (procs s ! p) \<and>
     waiting_time (procs d ! p) =
       current_time s - arrival_time (procs s ! p) - burst_time (procs s ! p)"

definition yields :: "nat \<Rightarrow> nat \<Rightarrow> State \<Rightarrow> State \<Rightarrow> bool" where
  "yields p q s d \<longleftrightarrow>
     trace d = trace s @ [Yields (current_time s) (proc_id (procs s ! p)) q] \<and>
     completed d = completed s \<and>
     queues d = queues s \<and>
     arrival_time (procs d ! p) = current_time s + 10 \<and>
     time_in_current_quantum (procs d ! p) = 0 \<and>
     current_queue (procs d ! p) = current_queue (procs s ! p)"

text \<open>
  The effect of \<open>add_process_to_queue\<close> on level \<open>l\<close>: with room the reference
  is appended and the process recorded at the level; without room the queues are as before.
\<close>

definition enqueued :: "nat \<Rightarrow> nat \<Rightarrow> State \<Rightarrow> State \<Rightarrow> bool" where
  "enqueued p l s d \<longleftrightarrow>
     (count (queues s ! l) < MAX_PROCESSES \<and> l < length (queues s) \<longrightarrow>
        processes (queues d ! l) = processes (queues s ! l) @ [p] \<and> at_level l p d) \<and>
     (MAX_PROCESSES \<le> count (queues s ! l) \<longrightarrow> queues d = queues s)"

definition demoted :: "nat \<Rightarrow> nat \<Rightarrow> State \<Rightarrow> State \<Rightarrow> bool" where
  "demoted p q s d \<longleftrightarrow>
     trace d = trace s @ [Demoted (current_time s) (proc_id (procs s ! p)) (next_queue q)] \<and>
     completed d = completed s \<and>
     enqueued p (next_queue q) s d"

definition returned :: "nat \<Rightarrow> nat \<Rightarrow> State \<Rightarrow> State \<Rightarrow> bool" where
  "returned p q s d \<longleftrightarrow>
     trace d = trace s @ [Returned (current_time s) (proc_id (procs s ! p)) q] \<and>
     completed d = completed s \<and>
     enqueued p q s d"

definition outcomes :: "nat \<Rightarrow> nat \<Rightarrow> State \<Rightarrow> State \<Rightarrow> bool list" where
  "outcomes p q s d = [completes p s d, yields p q s d, demoted p q s d, returned p q s d]"

text \<open>A CPU-bound process whose burst is exactly the quantum of level 0.\<close>

definition exact_fit :: "Process list" where
  "exact_fit = [mk_process 1 0 10 0]"

definition exact_fit_start :: State where
  "exact_fit_start = start_state exact_fit initial_globals"

subsection \<open>The idle branch\<close>

text \<open>
  The arrival times the search of lines 200-207 looks at: those of the unfinished
  processes that lie after the current time.
\<close>

definition future_arrivals :: "State \<Rightarrow> int list" where
  "future_arrivals s =
     map arrival_time
       (filter (\<lambda>P. remaining_time P > 0 \<and> arrival_time P > current_time s) (procs s))"

text \<open>
  Two states in which the scheduler finds nothing to run: round 2 of the run on
  \<open>io_only\<close> (time 2, the process is away for I/O until 12), and round 17 of the
  program's own run (time 186, three processes unfinished, none arriving).
\<close>

definition idle_round_start :: State where
  "idle_round_start = after_rounds 1 io_only initial_globals"

definition abort_round_start :: State where
  "abort_round_start = after_rounds 16 main_processes initial_globals"

subsection \<open>The invariant of the loop\<close>

text \<open>The quanta that \<open>init_queues\<close> writes (line 45).\<close>

definition quanta :: "int list" where
  "quanta = [10, 20, 40]"

text \<open>
  A process record is in order: its remaining burst lies between 0 and its burst, its
  level exists, and, if it is CPU-bound, the time it used in its quantum does not exceed
  the quantum of its level.
\<close>

definition proc_ok :: "Process \<Rightarrow> bool" where
  "proc_ok P \<longleftrightarrow>
     0 \<le> remaining_time P \<and> remaining_time P \<le> burst_time P \<and>
     current_queue P < NUM_QUEUES \<and>
     (is_io_bound P = 0 \<longrightarrow> time_in_current_quantum P \<le> quanta ! current_queue P)"

text \<open>
  A state is in order: the quanta are those of \<open>init_queues\<close>, the queues refer to
  processes of the array, and every process record is in order.
\<close>

definition sched_inv :: "State \<Rightarrow> bool" where
  "sched_inv s \<longleftrightarrow>
     map time_quantum (queues s) = quanta \<and> refs_valid s \<and> (\<forall>P \<in> set (procs s). proc_ok P)"

subsection \<open>A second call\<close>


section \<open>Basic facts about the operations\<close>

lemma map_update_same:
  assumes "f v = f (xs ! p)"
  shows "map f (xs[p := v]) = map f xs"
proof (cases "p < length xs")
  case True
  have "(map f xs)[p := (map f xs) ! p] = map f xs"
    by (rule list_update_id)
  with True assms show ?thesis
    by (simp add: map_update)
next
  case False
  then show ?thesis
    by (simp add: list_update_beyond)
qed

lemma nth_update_field: "f v = f (xs ! p) \<Longrightarrow> f (xs[p := v] ! i) = f (xs ! i)"
  by (cases "p < length xs"; cases "i = p"; simp add: list_update_beyond)

lemma add_process_to_queue_globals [simp]:
  "current_time (add_process_to_queue p l s) = current_time s"
  "boost_interval (add_process_to_queue p l s) = boost_interval s"
  "last_boost_time (add_process_to_queue p l s) = last_boost_time s"
  "completed (add_process_to_queue p l s) = completed s"
  "trace (add_process_to_queue p l s) = trace s"
  "length (procs (add_process_to_queue p l s)) = length (procs s)"
  "length (queues (add_process_to_queue p l s)) = length (queues s)"
  by (simp_all add: add_process_to_queue_def)

lemma add_process_to_queue_fields [simp]:
  "map remaining_time (procs (add_process_to_queue p l s)) = map remaining_time (procs s)"
  "map burst_time (procs (add_process_to_queue p l s)) = map burst_time (procs s)"
  "map arrival_time (procs (add_process_to_queue p l s)) = map arrival_time (procs s)"
  "map is_io_bound (procs (add_process_to_queue p l s)) = map is_io_bound (procs s)"
  "map time_quantum (queues (add_process_to_queue p l s)) = map time_quantum (queues s)"
  by (simp_all add: add_process_to_queue_def map_update_same)

lemma c_div_nonneg: "0 \<le> a \<Longrightarrow> c_div a 5 = a div 5"
  by (simp add: c_div_def)

lemma compute_run_time_min:
  "compute_run_time P Q =
     (if is_io_bound P \<noteq> 0 then min (remaining_time P) (c_div Q 5)
      else min (remaining_time P) (Q - time_in_current_quantum P))"
  by (simp add: compute_run_time_def min_def)

lemma after_run_current_time [simp]: "current_time (after_run p q ts rt s) = current_time s"
  by (simp add: after_run_def Let_def)

lemma after_run_length [simp]: "length (procs (after_run p q ts rt s)) = length (procs s)"
  by (simp add: after_run_def Let_def)

lemma after_run_remaining [simp]:
  "map remaining_time (procs (after_run p q ts rt s)) = map remaining_time (procs s)"
  by (simp add: after_run_def Let_def map_update_same)

lemma run_process_simps [simp]:
  "current_time (run_process p q ts rt s) = current_time s + rt"
  "length (procs (run_process p q ts rt s)) = length (procs s)"
  "queues (run_process p q ts rt s) = queues s"
  "completed (run_process p q ts rt s) = completed s"
  "map remaining_time (procs (run_process p q ts rt s)) =
     (map remaining_time (procs s))[p := remaining_time (procs s ! p) - rt]"
  by (simp_all add: run_process_def map_update)

lemma run_process_usage_nth:
  "p < length (procs s) \<Longrightarrow>
   time_in_current_quantum (procs (run_process p q ts rt s) ! p) =
     time_in_current_quantum (procs s ! p) + rt"
  by (simp add: run_process_def)

lemma mark_first_run_simps [simp]:
  "current_time (mark_first_run p s) = current_time s"
  "length (procs (mark_first_run p s)) = length (procs s)"
  "queues (mark_first_run p s) = queues s"
  "completed (mark_first_run p s) = completed s"
  "trace (mark_first_run p s) = trace s"
  "map remaining_time (procs (mark_first_run p s)) = map remaining_time (procs s)"
  "map burst_time (procs (mark_first_run p s)) = map burst_time (procs s)"
  by (simp_all add: mark_first_run_def map_update_same)

lemma mark_first_run_nth [simp]:
  "remaining_time (procs (mark_first_run p s) ! i) = remaining_time (procs s ! i)"
  "burst_time (procs (mark_first_run p s) ! i) = burst_time (procs s ! i)"
  "arrival_time (procs (mark_first_run p s) ! i) = arrival_time (procs s ! i)"
  "is_io_bound (procs (mark_first_run p s) ! i) = is_io_bound (procs s ! i)"
  "current_queue (procs (mark_first_run p s) ! i) = current_queue (procs s ! i)"
  "time_in_current_quantum (procs (mark_first_run p s) ! i) =
     time_in_current_quantum (procs s ! i)"
  "proc_id (procs (mark_first_run p s) ! i) = proc_id (procs s ! i)"
  by (simp_all add: mark_first_run_def nth_update_field)

lemma mark_first_run_compute [simp]:
  "compute_run_time (procs (mark_first_run p s) ! p) ts = compute_run_time (procs s ! p) ts"
  by (simp add: compute_run_time_def)

lemma dispatch_unfold:
  "dispatch p s =
     after_run p (current_queue (procs s ! p)) (time_slice p s) (run_time p s)
       (run_process p (current_queue (procs s ! p)) (time_slice p s) (run_time p s)
          (mark_first_run p s))"
  by (simp add: dispatch_def Let_def time_slice_def run_time_def)

lemma dispatch_current_time: "current_time (dispatch p s) = current_time s + run_time p s"
  by (simp add: dispatch_unfold)

lemma dispatch_length [simp]: "length (procs (dispatch p s)) = length (procs s)"
  by (simp add: dispatch_unfold)

lemma dispatch_remaining:
  "map remaining_time (procs (dispatch p s)) =
     (map remaining_time (procs s))[p := remaining_time (procs s ! p) - run_time p s]"
  by (simp add: dispatch_unfold)

lemma dispatch_remaining_nth:
  assumes "p < length (procs s)"
  shows "remaining_time (procs (dispatch p s) ! p) = remaining_time (procs s ! p) - run_time p s"
proof -
  have "remaining_time (procs (dispatch p s) ! p) = map remaining_time (procs (dispatch p s)) ! p"
    using assms by simp
  also have "\<dots> = remaining_time (procs s ! p) - run_time p s"
    using assms by (simp add: dispatch_remaining)
  finally show ?thesis .
qed

section \<open>The amount of a dispatch\<close>

text \<open>
  C4. Whenever the loop dispatches a process \<open>p\<close> (the scheduler returned it), the round
  is the dispatch of \<open>p\<close>, and with \<open>time_slice\<close> the quantum of the level recorded in
  the process: an I/O-bound process runs for the smaller of its remaining burst and a
  fifth of the quantum (C's division, which is the integer quotient for a quantum that is
  not negative), any other process for the smaller of its remaining burst and the quantum
  less the time already used in it; the clock grows by that run time, the remaining burst
  shrinks by it, and the time used in the quantum grows by it (as read right after the
  run, before the outcome is applied and may reset the counter).
\<close>

theorem dispatch_amount:
  assumes "get_next_process (check_arrivals s0) = (Some p, s)" and "p < length (procs s)"
  shows "loop_body s0 = (dispatch p s, False) \<and>
         dispatch p s =
           after_run p (current_queue (procs s ! p)) (time_slice p s) (run_time p s)
             (run_process p (current_queue (procs s ! p)) (time_slice p s) (run_time p s)
                (mark_first_run p s)) \<and>
         run_time p s =
           (if is_io_bound (procs s ! p) \<noteq> 0
            then min (remaining_time (procs s ! p)) (c_div (time_slice p s) 5)
            else min (remaining_time (procs s ! p))
                     (time_slice p s - time_in_current_quantum (procs s ! p))) \<and>
         (0 \<le> time_slice p s \<longrightarrow> c_div (time_slice p s) 5 = time_slice p s div 5) \<and>
         current_time (dispatch p s) = current_time s + run_time p s \<and>
         remaining_time (procs (dispatch p s) ! p) = remaining_time (procs s ! p) - run_time p s \<and>
         time_in_current_quantum
           (procs (run_process p (current_queue (procs s ! p)) (time_slice p s) (run_time p s)
                     (mark_first_run p s)) ! p) =
           time_in_current_quantum (procs s ! p) + run_time p s"
proof -
  have "loop_body s0 = (dispatch p s, False)"
    using assms(1) by (simp add: loop_body_def)
  moreover have "run_time p s =
           (if is_io_bound (procs s ! p) \<noteq> 0
            then min (remaining_time (procs s ! p)) (c_div (time_slice p s) 5)
            else min (remaining_time (procs s ! p))
                     (time_slice p s - time_in_current_quantum (procs s ! p)))"
    by (simp add: run_time_def compute_run_time_min)
  moreover have "0 \<le> time_slice p s \<longrightarrow> c_div (time_slice p s) 5 = time_slice p s div 5"
    by (simp add: c_div_nonneg)
  moreover have "current_time (dispatch p s) = current_time s + run_time p s"
    by (simp add: dispatch_current_time)
  moreover have "remaining_time (procs (dispatch p s) ! p) =
                   remaining_time (procs s ! p) - run_time p s"
    using assms(2) by (simp add: dispatch_remaining_nth)
  moreover have "time_in_current_quantum
           (procs (run_process p (current_queue (procs s ! p)) (time_slice p s) (run_time p s)
                     (mark_first_run p s)) ! p) =
           time_in_current_quantum (procs s ! p) + run_time p s"
    using assms(2) by (simp add: run_process_usage_nth)
  ultimately show ?thesis
    using dispatch_unfold by blast
qed

text \<open>
  The first round of the program's own run: process 1 (index 0, CPU-bound, burst 100) is
  dispatched at level 0 and runs for the whole quantum of 10.
\<close>

theorem dispatch_amount_witness:
  "get_next_process (check_arrivals main_start) =
     (Some 0, snd (get_next_process (check_arrivals main_start))) \<and>
   0 < length (procs (snd (get_next_process (check_arrivals main_start)))) \<and>
   0 \<le> time_slice 0 (snd (get_next_process (check_arrivals main_start))) \<and>
   run_time 0 (snd (get_next_process (check_arrivals main_start))) = 10 \<and>
   current_time (fst (loop_body main_start)) = 10 \<and>
   remaining_time (procs (fst (loop_body main_start)) ! 0) = 90"
proof -
  have h1: "get_next_process (check_arrivals main_start) =
     (Some 0, snd (get_next_process (check_arrivals main_start)))"
    by code_simp
  have h2: "0 < length (procs (snd (get_next_process (check_arrivals main_start))))"
    by code_simp
  have h3: "0 \<le> time_slice 0 (snd (get_next_process (check_arrivals main_start)))"
    by code_simp
  have h4: "run_time 0 (snd (get_next_process (check_arrivals main_start))) = 10"
    by code_simp
  have h5: "current_time (snd (get_next_process (check_arrivals main_start))) = 0"
    by code_simp
  have h6: "remaining_time (procs (snd (get_next_process (check_arrivals main_start))) ! 0) = 100"
    by code_simp
  note T = dispatch_amount [OF h1 h2]
  have a: "loop_body main_start =
             (dispatch 0 (snd (get_next_process (check_arrivals main_start))), False)"
    using T by blast
  have b: "current_time (dispatch 0 (snd (get_next_process (check_arrivals main_start)))) =
             current_time (snd (get_next_process (check_arrivals main_start))) +
             run_time 0 (snd (get_next_process (check_arrivals main_start)))"
    using T by blast
  have c: "remaining_time
             (procs (dispatch 0 (snd (get_next_process (check_arrivals main_start)))) ! 0) =
           remaining_time (procs (snd (get_next_process (check_arrivals main_start))) ! 0) -
             run_time 0 (snd (get_next_process (check_arrivals main_start)))"
    using T by blast
  have d: "current_time (fst (loop_body main_start)) = 10"
    by (simp only: a fst_conv b h4 h5)
  have e: "remaining_time (procs (fst (loop_body main_start)) ! 0) = 90"
    by (simp only: a fst_conv c h4 h6)
  from h1 h2 h3 h4 d e show ?thesis
    by blast
qed

section \<open>Runs that show where the program leaves its description\<close>

text \<open>
  C1. The claim: the reported turnaround, waiting and response times are measured from
  the arrival time the process was created with, and none of them is negative. The
  program overwrites \<open>arrival_time\<close> at every I/O yield (line 173) and computes the
  statistics from the overwritten field (lines 158-161 and 232). For a single I/O-bound
  process with burst 5 arriving at time 0 the run completes at time 25 with the field at
  24, and the table row reads: response -24, completion 25, turnaround 1, waiting -4.
\<close>

theorem io_only_statistics:
  "map_option (\<lambda>s. (print_results (procs s), map arrival_time (procs s)))
     (run_mlfq_simulation io_only initial_globals) =
   Some ([(1, True, 5, - 24, 25, 1, - 4)], [24])"
  by code_simp

text \<open>
  C2. The claim: a process is admitted once the clock has reached its arrival time. The
  program admits a process only in a round that starts with the clock equal to the
  arrival time (line 110). In the program's own run the clock goes from 14 to 24, so
  process 5 (index 4, arrival 20) is never admitted: at the end of the run, at time 186,
  it has never run (\<open>first_run_time\<close> still -1), its whole burst of 15 remains, two of
  the five processes are completed and the last line printed is the error message.
\<close>

theorem main_run_loses_arrival:
  "map_option (\<lambda>s. (current_time s, arrival_time (procs s ! 4), remaining_time (procs s ! 4),
                       first_run_time (procs s ! 4), completed s, last (trace s)))
     (run_mlfq_simulation main_processes initial_globals) =
   Some (186, 20, 15, - 1, 2, Error)"
  by code_simp

text \<open>
  C3. The claim: with one I/O-bound process of burst 5 and one CPU-bound process of
  burst 100, both arriving at 0, the I/O-bound process completes. In either order of the
  two processes the I/O-bound one stays at level 0 but never completes: its re-arrival
  time (24, or 22) is stepped over by the clock, it keeps a remaining burst (1, or 3), and
  the run ends with one process completed and the error message.
\<close>

theorem io_and_cpu_run:
  "map_option (\<lambda>s. (map remaining_time (procs s), map current_queue (procs s),
                       map first_run_time (procs s), map arrival_time (procs s),
                       completed s, last (trace s)))
     (run_mlfq_simulation io_and_cpu initial_globals) =
   Some ([1, 0], [0, 1], [0, 2], [24, 0], 1, Error) \<and>
   map_option (\<lambda>s. (map remaining_time (procs s), map current_queue (procs s),
                       map first_run_time (procs s), map arrival_time (procs s),
                       completed s, last (trace s)))
     (run_mlfq_simulation cpu_and_io initial_globals) =
   Some ([0, 3], [1, 0], [0, 10], [0, 22], 1, Error)"
  by code_simp

section \<open>A full level\<close>

text \<open>
  C10. Enqueuing into a level that already holds \<open>MAX_PROCESSES\<close> references changes
  nothing at all: no queue, no process, no output. And there are inputs for which a
  process is lost that way: of eleven CPU-bound processes of burst 20 arriving at time 0,
  the arrival of the eleventh is printed, level 0 holds the first ten only, and at the end
  of the run the eleventh has never run, keeps its whole burst, ten processes are
  completed and the last line printed is the error message.
\<close>

theorem enqueue_on_full_level:
  "(MAX_PROCESSES \<le> count (queues s ! queue_level) \<longrightarrow>
      add_process_to_queue p queue_level s = s) \<and>
   last (trace (check_arrivals (start_state eleven initial_globals))) = Arrives 0 11 20 False \<and>
   map processes (queues (check_arrivals (start_state eleven initial_globals))) =
     [[0, 1, 2, 3, 4, 5, 6, 7, 8, 9], [], []] \<and>
   map_option (\<lambda>s. (remaining_time (procs s ! 10), first_run_time (procs s ! 10),
                       completed s, last (trace s)))
     (run_mlfq_simulation eleven initial_globals) =
   Some (20, - 1, 10, Error)"
proof -
  have "MAX_PROCESSES \<le> count (queues s ! queue_level) \<longrightarrow>
          add_process_to_queue p queue_level s = s"
    by (simp add: add_process_to_queue_def)
  moreover have
    "last (trace (check_arrivals (start_state eleven initial_globals))) = Arrives 0 11 20 False"
    by code_simp
  moreover have
    "map processes (queues (check_arrivals (start_state eleven initial_globals))) =
       [[0, 1, 2, 3, 4, 5, 6, 7, 8, 9], [], []]"
    by code_simp
  moreover have
    "map_option (\<lambda>s. (remaining_time (procs s ! 10), first_run_time (procs s ! 10),
                         completed s, last (trace s)))
       (run_mlfq_simulation eleven initial_globals) =
     Some (20, - 1, 10, Error)"
    by code_simp
  ultimately show ?thesis
    by blast
qed

text \<open>
  The state in which the eleventh arrival is enqueued: level 0 holds ten references, and
  the call returns the state it was given.
\<close>

theorem enqueue_on_full_level_witness:
  "MAX_PROCESSES \<le> count (queues (check_arrivals (start_state eleven initial_globals)) ! 0) \<and>
   add_process_to_queue 10 0 (check_arrivals (start_state eleven initial_globals)) =
     check_arrivals (start_state eleven initial_globals)"
proof -
  have h: "MAX_PROCESSES \<le> count (queues (check_arrivals (start_state eleven initial_globals)) ! 0)"
    by code_simp
  from enqueue_on_full_level [of "check_arrivals (start_state eleven initial_globals)" 0 10] h
  show ?thesis
    by blast
qed

section \<open>The priority boost\<close>

lemma add_process_to_queue_level:
  assumes "l < length (queues s)"
  shows "processes (queues (add_process_to_queue p l s) ! l) =
           processes (queues s ! l) @ (if count (queues s ! l) < MAX_PROCESSES then [p] else [])"
  using assms by (simp add: add_process_to_queue_def)

lemma add_process_to_queue_other:
  "q \<noteq> l \<Longrightarrow> queues (add_process_to_queue p l s) ! q = queues s ! q"
  by (simp add: add_process_to_queue_def)

lemma add_process_to_queue_at_level:
  "at_level l p s \<Longrightarrow> at_level l p (add_process_to_queue p' l s)"
  by (cases "p' < length (procs s)"; cases "p = p'")
     (simp_all add: at_level_def add_process_to_queue_def list_update_beyond)

lemma add_process_to_queue_sets_level:
  "count (queues s ! l) < MAX_PROCESSES \<Longrightarrow> p < length (procs s) \<Longrightarrow>
   at_level l p (add_process_to_queue p l s)"
  by (simp add: at_level_def add_process_to_queue_def)

lemma fold_add_globals [simp]:
  "current_time (fold (\<lambda>p. add_process_to_queue p l) xs s) = current_time s"
  "boost_interval (fold (\<lambda>p. add_process_to_queue p l) xs s) = boost_interval s"
  "last_boost_time (fold (\<lambda>p. add_process_to_queue p l) xs s) = last_boost_time s"
  "completed (fold (\<lambda>p. add_process_to_queue p l) xs s) = completed s"
  "trace (fold (\<lambda>p. add_process_to_queue p l) xs s) = trace s"
  "length (procs (fold (\<lambda>p. add_process_to_queue p l) xs s)) = length (procs s)"
  "length (queues (fold (\<lambda>p. add_process_to_queue p l) xs s)) = length (queues s)"
  "map time_quantum (queues (fold (\<lambda>p. add_process_to_queue p l) xs s)) = map time_quantum (queues s)"
  "map remaining_time (procs (fold (\<lambda>p. add_process_to_queue p l) xs s)) = map remaining_time (procs s)"
  "map burst_time (procs (fold (\<lambda>p. add_process_to_queue p l) xs s)) = map burst_time (procs s)"
  by (induction xs arbitrary: s; simp)+

lemma fold_add_other:
  "q \<noteq> l \<Longrightarrow> queues (fold (\<lambda>p. add_process_to_queue p l) xs s) ! q = queues s ! q"
  by (induction xs arbitrary: s) (simp_all add: add_process_to_queue_other)

lemma fold_add_level:
  assumes "l < length (queues s)"
  shows "processes (queues (fold (\<lambda>p. add_process_to_queue p l) xs s) ! l) =
           processes (queues s ! l) @ take (MAX_PROCESSES - count (queues s ! l)) xs"
  using assms
proof (induction xs arbitrary: s)
  case Nil
  then show ?case by simp
next
  case (Cons x xs)
  let ?s = "add_process_to_queue x l s"
  have len: "l < length (queues ?s)"
    using Cons.prems by simp
  show ?case
  proof (cases "count (queues s ! l) < MAX_PROCESSES")
    case True
    then obtain n where n: "MAX_PROCESSES - count (queues s ! l) = Suc n"
      by (metis Suc_diff_Suc)
    have lvl: "processes (queues ?s ! l) = processes (queues s ! l) @ [x]"
      using True Cons.prems by (simp add: add_process_to_queue_level)
    then have "MAX_PROCESSES - count (queues ?s ! l) = n"
      using n by (simp add: count_def)
    with Cons.IH [OF len] lvl n show ?thesis
      by simp
  next
    case False
    then have "add_process_to_queue x l s = s"
      by (simp add: add_process_to_queue_def)
    moreover from False have "MAX_PROCESSES - count (queues s ! l) = 0"
      by simp
    ultimately show ?thesis
      using Cons.IH [OF Cons.prems] by simp
  qed
qed

lemma fold_add_keeps_level:
  "at_level l p s \<Longrightarrow> at_level l p (fold (\<lambda>p. add_process_to_queue p l) xs s)"
  by (induction xs arbitrary: s) (simp_all add: add_process_to_queue_at_level)

lemma fold_add_sets_level:
  assumes "p \<in> set (take (MAX_PROCESSES - count (queues s ! l)) xs)"
    and "p < length (procs s)" and "l < length (queues s)"
  shows "at_level l p (fold (\<lambda>p. add_process_to_queue p l) xs s)"
  using assms
proof (induction xs arbitrary: s)
  case Nil
  then show ?case by simp
next
  case (Cons x xs)
  let ?s = "add_process_to_queue x l s"
  from Cons.prems(1) have room: "count (queues s ! l) < MAX_PROCESSES"
    by (cases "count (queues s ! l) < MAX_PROCESSES") auto
  then obtain n where n: "MAX_PROCESSES - count (queues s ! l) = Suc n"
    by (metis Suc_diff_Suc)
  have lvl: "processes (queues ?s ! l) = processes (queues s ! l) @ [x]"
    using room Cons.prems(3) by (simp add: add_process_to_queue_level)
  then have n': "MAX_PROCESSES - count (queues ?s ! l) = n"
    using n by (simp add: count_def)
  from Cons.prems(1) n have "p = x \<or> p \<in> set (take n xs)"
    by auto
  then show ?case
  proof
    assume "p = x"
    then have "at_level l p ?s"
      using room Cons.prems(2) by (simp add: add_process_to_queue_sets_level)
    then show ?thesis
      by (simp add: fold_add_keeps_level)
  next
    assume "p \<in> set (take n xs)"
    with n' Cons.prems(2,3) have "at_level l p (fold (\<lambda>p. add_process_to_queue p l) xs ?s)"
      by (intro Cons.IH) simp_all
    then show ?thesis
      by simp
  qed
qed

lemma at_level_cong:
  "procs t = procs s \<Longrightarrow> at_level l p t = at_level l p s"
  by (simp add: at_level_def)

lemma boost_level_globals [simp]:
  "current_time (boost_level q s) = current_time s"
  "boost_interval (boost_level q s) = boost_interval s"
  "last_boost_time (boost_level q s) = last_boost_time s"
  "completed (boost_level q s) = completed s"
  "trace (boost_level q s) = trace s"
  "length (procs (boost_level q s)) = length (procs s)"
  "length (queues (boost_level q s)) = length (queues s)"
  "map remaining_time (procs (boost_level q s)) = map remaining_time (procs s)"
  "map burst_time (procs (boost_level q s)) = map burst_time (procs s)"
  by (simp_all add: boost_level_def Let_def)

lemma boost_level_quanta [simp]:
  "map time_quantum (queues (boost_level q s)) = map time_quantum (queues s)"
proof -
  have aux: "map time_quantum ((queues s')[q := (queues s' ! q)\<lparr>processes := []\<rparr>]) =
        map time_quantum (queues s')" for s' :: State
    by (rule map_update_same) simp
  show ?thesis
    by (simp add: boost_level_def Let_def aux)
qed

lemma boost_level_top:
  assumes "0 < q" and "q < length (queues s)"
  shows "processes (queues (boost_level q s) ! 0) =
           processes (queues s ! 0) @
           take (MAX_PROCESSES - count (queues s ! 0)) (processes (queues s ! q))"
proof -
  from assms have "0 < length (queues s)"
    by linarith
  with assms show ?thesis
    by (simp add: boost_level_def Let_def fold_add_level)
qed

lemma boost_level_cleared:
  assumes "q < length (queues s)"
  shows "processes (queues (boost_level q s) ! q) = []"
  using assms by (simp add: boost_level_def Let_def)

lemma boost_level_other:
  assumes "q' \<noteq> q" and "q' \<noteq> 0"
  shows "queues (boost_level q s) ! q' = queues s ! q'"
  using assms by (simp add: boost_level_def Let_def fold_add_other)

lemma boost_level_keeps_level:
  "at_level 0 p s \<Longrightarrow> at_level 0 p (boost_level q s)"
proof -
  assume "at_level 0 p s"
  then have "at_level 0 p (fold (\<lambda>p. add_process_to_queue p 0) (processes (queues s ! q)) s)"
    by (rule fold_add_keeps_level)
  then show ?thesis
    by (simp add: boost_level_def Let_def at_level_def)
qed

lemma boost_level_sets_level:
  assumes "p \<in> set (take (MAX_PROCESSES - count (queues s ! 0)) (processes (queues s ! q)))"
    and "p < length (procs s)" and "0 < length (queues s)"
  shows "at_level 0 p (boost_level q s)"
proof -
  have "at_level 0 p (fold (\<lambda>p. add_process_to_queue p 0) (processes (queues s ! q)) s)"
    using assms by (rule fold_add_sets_level)
  then show ?thesis
    by (simp add: boost_level_def Let_def at_level_def)
qed

lemma levels_above_top: "[1..<NUM_QUEUES] = [1, 2]"
  by (simp add: NUM_QUEUES_def upt_rec)

lemma priority_boost_fires:
  assumes "boost_interval s \<le> current_time s - last_boost_time s"
  shows "priority_boost s =
           (boost_level 2 (boost_level 1 (s\<lparr>trace := trace s @ [Boost (current_time s)]\<rparr>)))
             \<lparr>last_boost_time := current_time s\<rparr>"
  unfolding priority_boost_def Let_def levels_above_top using assms by simp

lemma priority_boost_idle:
  assumes "\<not> boost_interval s \<le> current_time s - last_boost_time s"
  shows "priority_boost s = s"
  using assms by (simp add: priority_boost_def)

lemma at_level_trace [simp]: "at_level l p (s\<lparr>trace := x\<rparr>) = at_level l p s"
  by (simp add: at_level_def)

lemma at_level_last_boost [simp]: "at_level l p (s\<lparr>last_boost_time := x\<rparr>) = at_level l p s"
  by (simp add: at_level_def)

lemma at_level_queues [simp]: "at_level l p (s\<lparr>queues := x\<rparr>) = at_level l p s"
  by (simp add: at_level_def)

lemma take_room:
  "(m::nat) - (a + min (m - a) b) = m - a - b"
  "(m::nat) - (a + min b (m - a)) = m - (a + b)"
  by (simp_all add: min_def)

lemma priority_boost_queues:
  assumes fires: "boost_interval s \<le> current_time s - last_boost_time s"
    and len: "length (queues s) = NUM_QUEUES"
  shows "processes (queues (priority_boost s) ! 0) =
           processes (queues s ! 0) @
           take (MAX_PROCESSES - count (queues s ! 0))
             (processes (queues s ! 1) @ processes (queues s ! 2))"
    and "processes (queues (priority_boost s) ! 1) = []"
    and "processes (queues (priority_boost s) ! 2) = []"
    and "last_boost_time (priority_boost s) = current_time s"
    and "current_time (priority_boost s) = current_time s"
    and "trace (priority_boost s) = trace s @ [Boost (current_time s)]"
proof -
  let ?s1 = "s\<lparr>trace := trace s @ [Boost (current_time s)]\<rparr>"
  let ?s2 = "boost_level 1 ?s1"
  let ?s3 = "boost_level 2 ?s2"
  have pb: "priority_boost s = ?s3\<lparr>last_boost_time := current_time s\<rparr>"
    using fires by (rule priority_boost_fires)
  have len1: "length (queues ?s1) = 3" and len2: "length (queues ?s2) = 3"
    using len by (simp_all add: NUM_QUEUES_def)
  have top2: "processes (queues ?s2 ! 0) =
                processes (queues s ! 0) @
                take (MAX_PROCESSES - count (queues s ! 0)) (processes (queues s ! 1))"
    using len1 by (simp add: boost_level_top)
  have two2: "queues ?s2 ! 2 = queues s ! 2"
    by (simp add: boost_level_other)
  have one2: "processes (queues ?s2 ! 1) = []"
    using len1 by (simp add: boost_level_cleared)
  have top3: "processes (queues ?s3 ! 0) =
                processes (queues ?s2 ! 0) @
                take (MAX_PROCESSES - count (queues ?s2 ! 0)) (processes (queues ?s2 ! 2))"
    using len2 by (intro boost_level_top) simp_all
  have one3: "queues ?s3 ! 1 = queues ?s2 ! 1"
    by (simp add: boost_level_other)
  have two3: "processes (queues ?s3 ! 2) = []"
    using len2 by (intro boost_level_cleared) simp
  show "processes (queues (priority_boost s) ! 0) =
           processes (queues s ! 0) @
           take (MAX_PROCESSES - count (queues s ! 0))
             (processes (queues s ! 1) @ processes (queues s ! 2))"
    unfolding pb using top3 top2 two2 by (simp add: count_def take_room)
  show "processes (queues (priority_boost s) ! 1) = []"
    unfolding pb using one3 one2 by simp
  show "processes (queues (priority_boost s) ! 2) = []"
    unfolding pb using two3 by simp
  show "last_boost_time (priority_boost s) = current_time s"
    unfolding pb by simp
  show "current_time (priority_boost s) = current_time s"
    unfolding pb by simp
  show "trace (priority_boost s) = trace s @ [Boost (current_time s)]"
    unfolding pb by simp
qed

lemma priority_boost_sets_level:
  assumes fires: "boost_interval s \<le> current_time s - last_boost_time s"
    and len: "length (queues s) = NUM_QUEUES"
    and p: "p \<in> set (take (MAX_PROCESSES - count (queues s ! 0))
                        (processes (queues s ! 1) @ processes (queues s ! 2)))"
    and valid: "p < length (procs s)"
  shows "at_level 0 p (priority_boost s)"
proof -
  let ?s1 = "s\<lparr>trace := trace s @ [Boost (current_time s)]\<rparr>"
  let ?s2 = "boost_level 1 ?s1"
  let ?s3 = "boost_level 2 ?s2"
  have pb: "priority_boost s = ?s3\<lparr>last_boost_time := current_time s\<rparr>"
    using fires by (rule priority_boost_fires)
  have len1: "length (queues ?s1) = 3" and len2: "length (queues ?s2) = 3"
    using len by (simp_all add: NUM_QUEUES_def)
  have top2: "processes (queues ?s2 ! 0) =
                processes (queues s ! 0) @
                take (MAX_PROCESSES - count (queues s ! 0)) (processes (queues s ! 1))"
    using len1 by (simp add: boost_level_top)
  have two2: "queues ?s2 ! 2 = queues s ! 2"
    by (simp add: boost_level_other)
  from p consider
      (first) "p \<in> set (take (MAX_PROCESSES - count (queues s ! 0)) (processes (queues s ! 1)))"
    | (second) "p \<in> set (take (MAX_PROCESSES - count (queues s ! 0) - count (queues s ! 1))
                             (processes (queues s ! 2)))"
    by (auto simp: count_def)
  then have "at_level 0 p ?s3"
  proof cases
    case first
    have "at_level 0 p ?s2"
      using first valid len1 by (intro boost_level_sets_level) simp_all
    then show ?thesis
      by (rule boost_level_keeps_level)
  next
    case second
    have "MAX_PROCESSES - count (queues ?s2 ! 0) =
            MAX_PROCESSES - count (queues s ! 0) - count (queues s ! 1)"
      using top2 by (simp add: count_def take_room)
    with second two2 valid len2 show ?thesis
      by (intro boost_level_sets_level) simp_all
  qed
  then show ?thesis
    unfolding pb by simp
qed

lemma get_next_process_same [simp]:
  "procs (snd (get_next_process s)) = procs (priority_boost s)"
  "current_time (snd (get_next_process s)) = current_time (priority_boost s)"
  "last_boost_time (snd (get_next_process s)) = last_boost_time (priority_boost s)"
  "boost_interval (snd (get_next_process s)) = boost_interval (priority_boost s)"
  "completed (snd (get_next_process s)) = completed (priority_boost s)"
  "trace (snd (get_next_process s)) = trace (priority_boost s)"
  "length (queues (snd (get_next_process s))) = length (queues (priority_boost s))"
  by (simp_all add: get_next_process_def Let_def split: option.splits)

lemma get_next_process_quanta [simp]:
  "map time_quantum (queues (snd (get_next_process s))) =
     map time_quantum (queues (priority_boost s))"
  by (simp add: get_next_process_def Let_def map_update_same split: option.splits)

lemma priority_boost_same [simp]:
  "current_time (priority_boost s) = current_time s"
  "boost_interval (priority_boost s) = boost_interval s"
  "completed (priority_boost s) = completed s"
  "length (procs (priority_boost s)) = length (procs s)"
  "length (queues (priority_boost s)) = length (queues s)"
  "map time_quantum (queues (priority_boost s)) = map time_quantum (queues s)"
  "map remaining_time (procs (priority_boost s)) = map remaining_time (procs s)"
  "map burst_time (procs (priority_boost s)) = map burst_time (procs s)"
  by (cases "boost_interval s \<le> current_time s - last_boost_time s";
      simp add: priority_boost_fires priority_boost_idle)+

lemma priority_boost_keeps_level:
  "at_level 0 p s \<Longrightarrow> at_level 0 p (priority_boost s)"
  by (cases "boost_interval s \<le> current_time s - last_boost_time s")
     (simp_all add: priority_boost_fires priority_boost_idle boost_level_keeps_level)

lemma get_next_process_keeps_level:
  "at_level 0 p s \<Longrightarrow> at_level 0 p (snd (get_next_process s))"
  using priority_boost_keeps_level [of p s] by (simp add: at_level_def)

lemma check_arrival_keeps_level:
  "at_level 0 p s \<Longrightarrow> at_level 0 p (check_arrival i s)"
  by (simp add: check_arrival_def add_process_to_queue_at_level)

lemma fold_check_arrival_keeps_level:
  "at_level 0 p s \<Longrightarrow> at_level 0 p (fold check_arrival is s)"
  by (induction "is" arbitrary: s) (simp_all add: check_arrival_keeps_level)

lemma check_arrivals_keeps_level:
  "at_level 0 p s \<Longrightarrow> at_level 0 p (check_arrivals s)"
  by (simp add: check_arrivals_def fold_check_arrival_keeps_level)

lemma add_process_to_queue_nth_other:
  "p \<noteq> p' \<Longrightarrow> procs (add_process_to_queue p' l s) ! p = procs s ! p"
  by (simp add: add_process_to_queue_def)

lemma after_run_nth_other:
  "p \<noteq> p' \<Longrightarrow> procs (after_run p' q ts rt s) ! p = procs s ! p"
  by (simp add: after_run_def Let_def add_process_to_queue_nth_other)

lemma run_process_nth_other:
  "p \<noteq> p' \<Longrightarrow> procs (run_process p' q ts rt s) ! p = procs s ! p"
  by (simp add: run_process_def)

lemma mark_first_run_nth_other:
  "p \<noteq> p' \<Longrightarrow> procs (mark_first_run p' s) ! p = procs s ! p"
  by (simp add: mark_first_run_def)

lemma dispatch_nth_other:
  "p \<noteq> p' \<Longrightarrow> procs (dispatch p' s) ! p = procs s ! p"
  by (simp add: dispatch_unfold after_run_nth_other run_process_nth_other
                mark_first_run_nth_other)

lemma idle_procs [simp]: "procs (fst (idle s)) = procs s"
  by (simp add: idle_def Let_def)

lemma run_or_idle_keeps_level:
  "at_level 0 p s \<Longrightarrow> r \<noteq> Some p \<Longrightarrow> at_level 0 p (fst (run_or_idle r s))"
  by (cases r) (simp_all add: at_level_def dispatch_nth_other)

lemma highest_nonempty_top:
  assumes "processes (queues s ! 1) = []" and "processes (queues s ! 2) = []"
  shows "highest_nonempty s = (if processes (queues s ! 0) = [] then None else Some 0)"
proof -
  have "[0..<NUM_QUEUES] = [0, 1, 2]"
    by (simp add: NUM_QUEUES_def upt_rec)
  with assms show ?thesis
    by (simp add: highest_nonempty_def count_def)
qed

lemma at_level_time_slice:
  "at_level 0 p s \<Longrightarrow> time_slice p s = time_quantum (queues s ! 0)"
  by (simp add: at_level_def time_slice_def)

lemma quantum_nth:
  assumes "map time_quantum (queues t) = map time_quantum (queues s)" and "q < length (queues s)"
  shows "time_quantum (queues t ! q) = time_quantum (queues s ! q)"
proof -
  have "length (queues t) = length (queues s)"
    using assms(1) by (metis length_map)
  then have "time_quantum (queues t ! q) = map time_quantum (queues t) ! q"
    using assms(2) by simp
  also have "\<dots> = time_quantum (queues s ! q)"
    using assms by simp
  finally show ?thesis .
qed

text \<open>
  C6. The claim: when a boost is due, every reference in a level above 0 is moved into
  level 0 (the comment of line 61: "Move all processes to highest priority queue"). In the
  run on \<open>twelve\<close> the boost at time 50 finds seven references in level 0 and five in
  level 1. The references are handed to \<open>add_process_to_queue\<close>, which appends only
  while level 0 holds fewer than \<open>MAX_PROCESSES\<close>: three are moved, level 1 is cleared
  all the same, and the references to processes 4 and 5 (indices 3 and 4) are in no level
  afterwards. The two are never scheduled again: the run ends at time 1020 with ten
  processes completed, 90 units of burst left for each of the two, and the error message
  as the last line printed.
\<close>

theorem priority_boost_overflow:
  "boost_interval overfull_boost_start
     \<le> current_time overfull_boost_start - last_boost_time overfull_boost_start \<and>
   map processes (queues overfull_boost_start) = [[5, 6, 7, 8, 9, 10, 11], [0, 1, 2, 3, 4], []] \<and>
   map processes (queues (priority_boost overfull_boost_start)) =
     [[5, 6, 7, 8, 9, 10, 11, 0, 1, 2], [], []] \<and>
   map processes (queues (snd (get_next_process overfull_boost_start))) =
     [[6, 7, 8, 9, 10, 11, 0, 1, 2], [], []] \<and>
   map remaining_time (procs (priority_boost overfull_boost_start)) =
     [90, 90, 90, 90, 90, 100, 100, 100, 100, 100, 100, 100] \<and>
   map_option
     (\<lambda>s. (current_time s, completed s, map remaining_time (procs s), last (trace s)))
     (run_mlfq_simulation twelve initial_globals) =
   Some (1020, 10, [0, 0, 0, 90, 90, 0, 0, 0, 0, 0, 0, 0], Error)"
proof -
  have "boost_interval overfull_boost_start
          \<le> current_time overfull_boost_start - last_boost_time overfull_boost_start"
    by code_simp
  moreover have
    "map processes (queues overfull_boost_start) = [[5, 6, 7, 8, 9, 10, 11], [0, 1, 2, 3, 4], []]"
    by code_simp
  moreover have
    "map processes (queues (priority_boost overfull_boost_start)) =
       [[5, 6, 7, 8, 9, 10, 11, 0, 1, 2], [], []]"
    by code_simp
  moreover have
    "map processes (queues (snd (get_next_process overfull_boost_start))) =
       [[6, 7, 8, 9, 10, 11, 0, 1, 2], [], []]"
    by code_simp
  moreover have
    "map remaining_time (procs (priority_boost overfull_boost_start)) =
       [90, 90, 90, 90, 90, 100, 100, 100, 100, 100, 100, 100]"
    by code_simp
  moreover have
    "map_option
       (\<lambda>s. (current_time s, completed s, map remaining_time (procs s), last (trace s)))
       (run_mlfq_simulation twelve initial_globals) =
     Some (1020, 10, [0, 0, 0, 90, 90, 0, 0, 0, 0, 0, 0, 0], Error)"
    by code_simp
  ultimately show ?thesis
    by blast
qed

lemma check_arrival_same [simp]:
  "current_time (check_arrival i s) = current_time s"
  "boost_interval (check_arrival i s) = boost_interval s"
  "last_boost_time (check_arrival i s) = last_boost_time s"
  "completed (check_arrival i s) = completed s"
  "length (procs (check_arrival i s)) = length (procs s)"
  "length (queues (check_arrival i s)) = length (queues s)"
  "map time_quantum (queues (check_arrival i s)) = map time_quantum (queues s)"
  "map remaining_time (procs (check_arrival i s)) = map remaining_time (procs s)"
  "map burst_time (procs (check_arrival i s)) = map burst_time (procs s)"
  by (simp_all add: check_arrival_def)

lemma fold_check_arrival_same [simp]:
  "current_time (fold check_arrival is s) = current_time s"
  "boost_interval (fold check_arrival is s) = boost_interval s"
  "last_boost_time (fold check_arrival is s) = last_boost_time s"
  "completed (fold check_arrival is s) = completed s"
  "length (procs (fold check_arrival is s)) = length (procs s)"
  "length (queues (fold check_arrival is s)) = length (queues s)"
  "map time_quantum (queues (fold check_arrival is s)) = map time_quantum (queues s)"
  "map remaining_time (procs (fold check_arrival is s)) = map remaining_time (procs s)"
  "map burst_time (procs (fold check_arrival is s)) = map burst_time (procs s)"
  by (induction "is" arbitrary: s; simp)+

lemma check_arrivals_same [simp]:
  "current_time (check_arrivals s) = current_time s"
  "boost_interval (check_arrivals s) = boost_interval s"
  "last_boost_time (check_arrivals s) = last_boost_time s"
  "completed (check_arrivals s) = completed s"
  "length (procs (check_arrivals s)) = length (procs s)"
  "length (queues (check_arrivals s)) = length (queues s)"
  "map time_quantum (queues (check_arrivals s)) = map time_quantum (queues s)"
  "map remaining_time (procs (check_arrivals s)) = map remaining_time (procs s)"
  "map burst_time (procs (check_arrivals s)) = map burst_time (procs s)"
  by (simp_all add: check_arrivals_def)

text \<open>
  What the boost does in general. When the scheduler is called with
  \<open>current_time - last_boost_time \<ge> boost_interval\<close>, the references of levels 1 and
  2 are handed to level 0 in that order and appended while level 0 holds fewer than
  \<open>MAX_PROCESSES\<close> references; so all of them are moved, in order, when the three
  levels together hold at most \<open>MAX_PROCESSES\<close>. Levels 1 and 2 are cleared and
  \<open>last_boost_time\<close> becomes the current time. The scheduler then returns the head of
  level 0. A process moved by the boost is recorded at level 0 with an unused quantum; if
  it is the one returned, its time slice is the quantum of level 0; and a process recorded
  at level 0 with an unused quantum stays so through every round in which it is not the
  one dispatched, and gets the quantum of level 0 in the round in which it is.
\<close>

theorem priority_boost_to_top:
  assumes fires: "boost_interval s \<le> current_time s - last_boost_time s"
    and len: "length (queues s) = NUM_QUEUES"
    and valid: "refs_valid s"
    and sched: "get_next_process s = (r, s')"
  shows "processes (queues (priority_boost s) ! 0) =
           processes (queues s ! 0) @
           take (MAX_PROCESSES - count (queues s ! 0))
             (processes (queues s ! 1) @ processes (queues s ! 2)) \<and>
         (count (queues s ! 0) + count (queues s ! 1) + count (queues s ! 2) \<le> MAX_PROCESSES \<longrightarrow>
            processes (queues (priority_boost s) ! 0) =
              processes (queues s ! 0) @ processes (queues s ! 1) @ processes (queues s ! 2)) \<and>
         processes (queues (priority_boost s) ! 1) = [] \<and>
         processes (queues (priority_boost s) ! 2) = [] \<and>
         last_boost_time (priority_boost s) = current_time s \<and>
         r = (if processes (queues (priority_boost s) ! 0) = [] then None
              else Some (hd (processes (queues (priority_boost s) ! 0)))) \<and>
         (\<forall>p \<in> set (take (MAX_PROCESSES - count (queues s ! 0))
                        (processes (queues s ! 1) @ processes (queues s ! 2))).
            at_level 0 p s' \<and>
            (r = Some p \<longrightarrow> time_slice p s' = time_quantum (queues s ! 0)) \<and>
            (r \<noteq> Some p \<longrightarrow> at_level 0 p (fst (run_or_idle r s')))) \<and>
         (\<forall>t p. at_level 0 p t \<and> 0 < length (queues t) \<longrightarrow>
            at_level 0 p (snd (get_next_process (check_arrivals t))) \<and>
            (fst (get_next_process (check_arrivals t)) = Some p \<longrightarrow>
               time_slice p (snd (get_next_process (check_arrivals t))) =
                 time_quantum (queues t ! 0)) \<and>
            (fst (get_next_process (check_arrivals t)) \<noteq> Some p \<longrightarrow>
               at_level 0 p (fst (loop_body t))))"
proof -
  let ?moved = "take (MAX_PROCESSES - count (queues s ! 0))
                  (processes (queues s ! 1) @ processes (queues s ! 2))"
  note q = priority_boost_queues [OF fires len]
  have top: "processes (queues (priority_boost s) ! 0) = processes (queues s ! 0) @ ?moved"
    by (rule q(1))
  have all: "count (queues s ! 0) + count (queues s ! 1) + count (queues s ! 2) \<le> MAX_PROCESSES \<longrightarrow>
            processes (queues (priority_boost s) ! 0) =
              processes (queues s ! 0) @ processes (queues s ! 1) @ processes (queues s ! 2)"
    unfolding top by (simp add: count_def)
  have s': "s' = snd (get_next_process s)" and r: "r = fst (get_next_process s)"
    using sched by simp_all
  have pick: "r = (if processes (queues (priority_boost s) ! 0) = [] then None
                   else Some (hd (processes (queues (priority_boost s) ! 0))))"
    unfolding r using highest_nonempty_top [OF q(2) q(3)]
    by (simp add: get_next_process_def Let_def)
  have pos: "0 < length (queues s)"
    using len by (simp add: NUM_QUEUES_def)
  have quantum0: "time_quantum (queues (snd (get_next_process t)) ! 0) = time_quantum (queues t ! 0)"
    if "0 < length (queues t)" for t
    using that by (intro quantum_nth) simp_all
  have moved: "at_level 0 p s' \<and>
            (r = Some p \<longrightarrow> time_slice p s' = time_quantum (queues s ! 0)) \<and>
            (r \<noteq> Some p \<longrightarrow> at_level 0 p (fst (run_or_idle r s')))"
    if p: "p \<in> set ?moved" for p
  proof -
    from p have "p \<in> set (processes (queues s ! 1)) \<or> p \<in> set (processes (queues s ! 2))"
      by (auto dest: in_set_takeD)
    moreover have "queues s ! 1 \<in> set (queues s)" and "queues s ! 2 \<in> set (queues s)"
      using len by (simp_all add: NUM_QUEUES_def)
    ultimately have "p < length (procs s)"
      using valid by (auto simp: refs_valid_def)
    with fires len p have "at_level 0 p (priority_boost s)"
      by (intro priority_boost_sets_level)
    then have lvl: "at_level 0 p s'"
      unfolding s' by (simp add: at_level_def)
    then have "time_slice p s' = time_quantum (queues s ! 0)"
      unfolding s' using quantum0 [OF pos] by (simp add: at_level_time_slice)
    with lvl show ?thesis
      by (simp add: run_or_idle_keeps_level)
  qed
  have later: "at_level 0 p (snd (get_next_process (check_arrivals t))) \<and>
            (fst (get_next_process (check_arrivals t)) = Some p \<longrightarrow>
               time_slice p (snd (get_next_process (check_arrivals t))) =
                 time_quantum (queues t ! 0)) \<and>
            (fst (get_next_process (check_arrivals t)) \<noteq> Some p \<longrightarrow>
               at_level 0 p (fst (loop_body t)))"
    if lvl: "at_level 0 p t" and pos': "0 < length (queues t)" for t p
  proof -
    let ?t1 = "check_arrivals t"
    have lvl1: "at_level 0 p (snd (get_next_process ?t1))"
      using lvl by (intro get_next_process_keeps_level check_arrivals_keeps_level)
    have "map time_quantum (queues ?t1) = map time_quantum (queues t)"
      by simp
    then have "time_quantum (queues (snd (get_next_process ?t1)) ! 0) = time_quantum (queues t ! 0)"
      using pos' by (intro quantum_nth) simp_all
    with lvl1 have "time_slice p (snd (get_next_process ?t1)) = time_quantum (queues t ! 0)"
      by (simp add: at_level_time_slice)
    moreover have "fst (get_next_process ?t1) \<noteq> Some p \<longrightarrow> at_level 0 p (fst (loop_body t))"
      using lvl1 by (simp add: loop_body_def split_beta run_or_idle_keeps_level)
    ultimately show ?thesis
      using lvl1 by simp
  qed
  from top all q(2) q(3) q(4) pick moved later show ?thesis
    by blast
qed

text \<open>
  The first boost of the program's own run, at time 66: processes 1 and 4 (indices 0 and
  3) are moved from level 2 to level 0, process 1 is dispatched with quantum 10, and
  process 4 is at level 0 after the round.
\<close>

theorem priority_boost_to_top_witness:
  "boost_interval boost_round_start
     \<le> current_time boost_round_start - last_boost_time boost_round_start \<and>
   length (queues boost_round_start) = NUM_QUEUES \<and>
   refs_valid boost_round_start \<and>
   map processes (queues boost_round_start) = [[], [], [0, 3]] \<and>
   map processes (queues (priority_boost boost_round_start)) = [[0, 3], [], []] \<and>
   last_boost_time (priority_boost boost_round_start) = 66 \<and>
   fst (get_next_process boost_round_start) = Some 0 \<and>
   time_slice 0 (snd (get_next_process boost_round_start)) = 10 \<and>
   at_level 0 3 (fst (loop_body (after_rounds 7 main_processes initial_globals)))"
proof -
  have h1: "boost_interval boost_round_start
              \<le> current_time boost_round_start - last_boost_time boost_round_start"
    by code_simp
  have h2: "length (queues boost_round_start) = NUM_QUEUES"
    by code_simp
  have h3: "refs_valid boost_round_start"
    by code_simp
  have h4: "get_next_process boost_round_start =
              (fst (get_next_process boost_round_start), snd (get_next_process boost_round_start))"
    by simp
  have e1: "map processes (queues boost_round_start) = [[], [], [0, 3]]"
    by code_simp
  have e2: "map processes (queues (priority_boost boost_round_start)) = [[0, 3], [], []]"
    by code_simp
  have e3: "current_time boost_round_start = 66"
    by code_simp
  have e4: "fst (get_next_process boost_round_start) = Some 0"
    by code_simp
  have e5: "time_quantum (queues boost_round_start ! 0) = 10"
    by code_simp
  have e6: "get_next_process (check_arrivals (after_rounds 7 main_processes initial_globals)) =
              get_next_process boost_round_start"
    by (simp add: boost_round_start_def)
  have m0: "0 \<in> set (take (MAX_PROCESSES - count (queues boost_round_start ! 0))
              (processes (queues boost_round_start ! 1) @ processes (queues boost_round_start ! 2)))"
    by code_simp
  have m3: "3 \<in> set (take (MAX_PROCESSES - count (queues boost_round_start ! 0))
              (processes (queues boost_round_start ! 1) @ processes (queues boost_round_start ! 2)))"
    by code_simp
  note T = priority_boost_to_top [OF h1 h2 h3 h4]
  have "last_boost_time (priority_boost boost_round_start) = current_time boost_round_start"
    using T by blast
  then have a: "last_boost_time (priority_boost boost_round_start) = 66"
    by (simp only: e3)
  have M: "\<forall>p \<in> set (take (MAX_PROCESSES - count (queues boost_round_start ! 0))
              (processes (queues boost_round_start ! 1) @ processes (queues boost_round_start ! 2))).
            at_level 0 p (snd (get_next_process boost_round_start)) \<and>
            (fst (get_next_process boost_round_start) = Some p \<longrightarrow>
               time_slice p (snd (get_next_process boost_round_start)) =
                 time_quantum (queues boost_round_start ! 0)) \<and>
            (fst (get_next_process boost_round_start) \<noteq> Some p \<longrightarrow>
               at_level 0 p (fst (run_or_idle (fst (get_next_process boost_round_start))
                                              (snd (get_next_process boost_round_start)))))"
    using T by blast
  from M m0 e4 have "time_slice 0 (snd (get_next_process boost_round_start)) =
                       time_quantum (queues boost_round_start ! 0)"
    by blast
  then have b: "time_slice 0 (snd (get_next_process boost_round_start)) = 10"
    by (simp only: e5)
  have "fst (get_next_process boost_round_start) \<noteq> Some 3"
    by (simp add: e4)
  with M m3 have
    "at_level 0 3 (fst (run_or_idle (fst (get_next_process boost_round_start))
                                    (snd (get_next_process boost_round_start))))"
    by blast
  then have c: "at_level 0 3 (fst (loop_body (after_rounds 7 main_processes initial_globals)))"
    by (simp add: loop_body_def split_beta e6)
  from h1 h2 h3 e1 e2 a e4 b c show ?thesis
    by blast
qed

section \<open>The outcome of a dispatch\<close>

lemma dispatch_after_run:
  "dispatch p s = after_run p (current_queue (procs s ! p)) (time_slice p s) (run_time p s) (ran p s)"
  by (simp add: dispatch_unfold ran_def)

lemma ran_same [simp]:
  "queues (ran p s) = queues s"
  "completed (ran p s) = completed s"
  "length (procs (ran p s)) = length (procs s)"
  "current_time (ran p s) = current_time s + run_time p s"
  by (simp_all add: ran_def)

lemma ran_nth:
  assumes "p < length (procs s)"
  shows "remaining_time (procs (ran p s) ! p) = remaining_time (procs s ! p) - run_time p s"
    and "time_in_current_quantum (procs (ran p s) ! p) =
           time_in_current_quantum (procs s ! p) + run_time p s"
    and "is_io_bound (procs (ran p s) ! p) = is_io_bound (procs s ! p)"
    and "current_queue (procs (ran p s) ! p) = current_queue (procs s ! p)"
    and "proc_id (procs (ran p s) ! p) = proc_id (procs s ! p)"
    and "arrival_time (procs (ran p s) ! p) = arrival_time (procs s ! p)"
    and "burst_time (procs (ran p s) ! p) = burst_time (procs s ! p)"
  using assms by (simp_all add: ran_def run_process_def)

lemma after_run_completion:
  assumes "remaining_time (procs s ! p) = 0" and "p < length (procs s)"
  shows "trace (after_run p q ts rt s) =
           trace s @ [Completed (current_time s) (proc_id (procs s ! p))]"
    and "completed (after_run p q ts rt s) = completed s + 1"
    and "queues (after_run p q ts rt s) = queues s"
    and "completion_time (procs (after_run p q ts rt s) ! p) = current_time s"
    and "turnaround_time (procs (after_run p q ts rt s) ! p) =
           current_time s - arrival_time (procs s ! p)"
    and "waiting_time (procs (after_run p q ts rt s) ! p) =
           current_time s - arrival_time (procs s ! p) - burst_time (procs s ! p)"
  using assms by (simp_all add: after_run_def)

lemma after_run_yield:
  assumes "remaining_time (procs s ! p) \<noteq> 0" and "is_io_bound (procs s ! p) \<noteq> 0"
    and "rt < ts" and "p < length (procs s)"
  shows "trace (after_run p q ts rt s) =
           trace s @ [Yields (current_time s) (proc_id (procs s ! p)) q]"
    and "completed (after_run p q ts rt s) = completed s"
    and "queues (after_run p q ts rt s) = queues s"
    and "arrival_time (procs (after_run p q ts rt s) ! p) = current_time s + 10"
    and "time_in_current_quantum (procs (after_run p q ts rt s) ! p) = 0"
    and "current_queue (procs (after_run p q ts rt s) ! p) = current_queue (procs s ! p)"
  using assms by (simp_all add: after_run_def)

lemma add_process_to_queue_room:
  assumes "count (queues s ! l) < MAX_PROCESSES" and "l < length (queues s)"
    and "p < length (procs s)"
  shows "processes (queues (add_process_to_queue p l s) ! l) = processes (queues s ! l) @ [p]"
    and "at_level l p (add_process_to_queue p l s)"
  using assms by (simp_all add: add_process_to_queue_def at_level_def)

lemma add_process_to_queue_no_room:
  assumes "MAX_PROCESSES \<le> count (queues s ! l)"
  shows "add_process_to_queue p l s = s"
  using assms by (simp add: add_process_to_queue_def)

lemma after_run_demotion:
  assumes "remaining_time (procs s ! p) \<noteq> 0"
    and "\<not> (is_io_bound (procs s ! p) \<noteq> 0 \<and> rt < ts)"
    and "ts \<le> time_in_current_quantum (procs s ! p)"
    and "p < length (procs s)"
  shows "trace (after_run p q ts rt s) =
           trace s @ [Demoted (current_time s) (proc_id (procs s ! p)) (next_queue q)]"
    and "completed (after_run p q ts rt s) = completed s"
    and "count (queues s ! next_queue q) < MAX_PROCESSES \<Longrightarrow> next_queue q < length (queues s) \<Longrightarrow>
           processes (queues (after_run p q ts rt s) ! next_queue q) =
             processes (queues s ! next_queue q) @ [p] \<and>
           at_level (next_queue q) p (after_run p q ts rt s)"
    and "MAX_PROCESSES \<le> count (queues s ! next_queue q) \<Longrightarrow>
           queues (after_run p q ts rt s) = queues s"
  using assms
  by (simp_all add: after_run_def Let_def next_queue_def add_process_to_queue_room
                    add_process_to_queue_no_room)

lemma after_run_requeue:
  assumes "remaining_time (procs s ! p) \<noteq> 0"
    and "\<not> (is_io_bound (procs s ! p) \<noteq> 0 \<and> rt < ts)"
    and "\<not> ts \<le> time_in_current_quantum (procs s ! p)"
    and "p < length (procs s)"
  shows "trace (after_run p q ts rt s) =
           trace s @ [Returned (current_time s) (proc_id (procs s ! p)) q]"
    and "completed (after_run p q ts rt s) = completed s"
    and "count (queues s ! q) < MAX_PROCESSES \<Longrightarrow> q < length (queues s) \<Longrightarrow>
           processes (queues (after_run p q ts rt s) ! q) = processes (queues s ! q) @ [p] \<and>
           at_level q p (after_run p q ts rt s)"
    and "MAX_PROCESSES \<le> count (queues s ! q) \<Longrightarrow> queues (after_run p q ts rt s) = queues s"
  using assms
  by (simp_all add: after_run_def Let_def add_process_to_queue_room
                    add_process_to_queue_no_room)

lemma outcomes_exclusive:
  "\<not> (completes p s d \<and> yields p q s d)"
  "\<not> (completes p s d \<and> demoted p q s d)"
  "\<not> (completes p s d \<and> returned p q s d)"
  "\<not> (yields p q s d \<and> demoted p q s d)"
  "\<not> (yields p q s d \<and> returned p q s d)"
  "\<not> (demoted p q s d \<and> returned p q s d)"
  by (auto simp: completes_def yields_def demoted_def returned_def)

lemma one_outcome:
  "completes p s d \<or> yields p q s d \<or> demoted p q s d \<or> returned p q s d \<Longrightarrow>
   length (filter (\<lambda>b. b) (outcomes p q s d)) = 1"
  using outcomes_exclusive [where p = p and s = s and d = d and q = q]
  by (auto simp: outcomes_def)

lemma after_run_outcome:
  assumes "p < length (procs s)"
  shows "if remaining_time (procs s ! p) = 0 then completes p s (after_run p q ts rt s)
         else if is_io_bound (procs s ! p) \<noteq> 0 \<and> rt < ts then yields p q s (after_run p q ts rt s)
         else if ts \<le> time_in_current_quantum (procs s ! p)
           then demoted p q s (after_run p q ts rt s)
         else returned p q s (after_run p q ts rt s)"
proof -
  consider (c) "remaining_time (procs s ! p) = 0"
    | (y) "remaining_time (procs s ! p) \<noteq> 0" "is_io_bound (procs s ! p) \<noteq> 0" "rt < ts"
    | (d) "remaining_time (procs s ! p) \<noteq> 0" "\<not> (is_io_bound (procs s ! p) \<noteq> 0 \<and> rt < ts)"
          "ts \<le> time_in_current_quantum (procs s ! p)"
    | (r) "remaining_time (procs s ! p) \<noteq> 0" "\<not> (is_io_bound (procs s ! p) \<noteq> 0 \<and> rt < ts)"
          "\<not> ts \<le> time_in_current_quantum (procs s ! p)"
    by blast
  then show ?thesis
  proof cases
    case c
    with assms show ?thesis
      by (simp add: completes_def after_run_completion)
  next
    case y
    with assms show ?thesis
      by (simp add: yields_def after_run_yield)
  next
    case d
    have "demoted p q s (after_run p q ts rt s)"
      using after_run_demotion [OF d assms, of q] by (simp add: demoted_def enqueued_def)
    with d show ?thesis
      by auto
  next
    case r
    have "returned p q s (after_run p q ts rt s)"
      using after_run_requeue [OF r assms, of q] by (simp add: returned_def enqueued_def)
    with r show ?thesis
      by auto
  qed
qed

text \<open>
  C5. Whenever the loop dispatches a process, exactly one of the four outcomes is applied
  to the state left by the run, chosen in this order: completion if the remaining burst is
  0; else the I/O yield if the process is I/O-bound and ran for less than the quantum (it
  keeps its level, its quantum counter is reset and its arrival time is set ten units
  ahead); else demotion if the quantum is used up; else return to the same level. In
  particular a process whose remaining burst is 0 with the quantum used up is completed
  and not demoted, as is a CPU-bound process whose remaining burst is exactly the rest
  of its quantum.
\<close>

theorem outcome_order:
  assumes "get_next_process (check_arrivals s0) = (Some p, s)" and "p < length (procs s)"
  shows "loop_body s0 = (dispatch p s, False) \<and>
         (if remaining_time (procs (ran p s) ! p) = 0
            then completes p (ran p s) (dispatch p s)
          else if is_io_bound (procs (ran p s) ! p) \<noteq> 0 \<and> run_time p s < time_slice p s
            then yields p (current_queue (procs s ! p)) (ran p s) (dispatch p s)
          else if time_slice p s \<le> time_in_current_quantum (procs (ran p s) ! p)
            then demoted p (current_queue (procs s ! p)) (ran p s) (dispatch p s)
          else returned p (current_queue (procs s ! p)) (ran p s) (dispatch p s)) \<and>
         length (filter (\<lambda>b. b)
                   (outcomes p (current_queue (procs s ! p)) (ran p s) (dispatch p s))) = 1 \<and>
         (remaining_time (procs (ran p s) ! p) = 0 \<and>
          time_slice p s \<le> time_in_current_quantum (procs (ran p s) ! p) \<longrightarrow>
            completes p (ran p s) (dispatch p s) \<and>
            \<not> demoted p (current_queue (procs s ! p)) (ran p s) (dispatch p s)) \<and>
         (is_io_bound (procs s ! p) = 0 \<and>
          remaining_time (procs s ! p) = time_slice p s - time_in_current_quantum (procs s ! p) \<longrightarrow>
            remaining_time (procs (ran p s) ! p) = 0 \<and>
            time_in_current_quantum (procs (ran p s) ! p) = time_slice p s \<and>
            completes p (ran p s) (dispatch p s))"
proof -
  let ?q = "current_queue (procs s ! p)"
  have body: "loop_body s0 = (dispatch p s, False)"
    using assms(1) by (simp add: loop_body_def)
  have len: "p < length (procs (ran p s))"
    using assms(2) by simp
  have chain: "if remaining_time (procs (ran p s) ! p) = 0
            then completes p (ran p s) (dispatch p s)
          else if is_io_bound (procs (ran p s) ! p) \<noteq> 0 \<and> run_time p s < time_slice p s
            then yields p ?q (ran p s) (dispatch p s)
          else if time_slice p s \<le> time_in_current_quantum (procs (ran p s) ! p)
            then demoted p ?q (ran p s) (dispatch p s)
          else returned p ?q (ran p s) (dispatch p s)"
    unfolding dispatch_after_run by (rule after_run_outcome [OF len])
  then have some: "completes p (ran p s) (dispatch p s) \<or> yields p ?q (ran p s) (dispatch p s) \<or>
                   demoted p ?q (ran p s) (dispatch p s) \<or> returned p ?q (ran p s) (dispatch p s)"
    by (auto split: if_splits)
  then have one: "length (filter (\<lambda>b. b) (outcomes p ?q (ran p s) (dispatch p s))) = 1"
    by (rule one_outcome)
  have exact: "remaining_time (procs (ran p s) ! p) = 0 \<and>
          time_slice p s \<le> time_in_current_quantum (procs (ran p s) ! p) \<longrightarrow>
            completes p (ran p s) (dispatch p s) \<and>
            \<not> demoted p ?q (ran p s) (dispatch p s)"
    using chain outcomes_exclusive(2) [where p = p and s = "ran p s" and d = "dispatch p s" and q = ?q]
    by auto
  have cpu: "is_io_bound (procs s ! p) = 0 \<and>
          remaining_time (procs s ! p) = time_slice p s - time_in_current_quantum (procs s ! p) \<longrightarrow>
            remaining_time (procs (ran p s) ! p) = 0 \<and>
            time_in_current_quantum (procs (ran p s) ! p) = time_slice p s \<and>
            completes p (ran p s) (dispatch p s)"
  proof (intro impI, elim conjE)
    assume io: "is_io_bound (procs s ! p) = 0"
      and rem: "remaining_time (procs s ! p) = time_slice p s - time_in_current_quantum (procs s ! p)"
    have rt: "run_time p s = remaining_time (procs s ! p)"
      using io rem by (simp add: run_time_def compute_run_time_def)
    have r0: "remaining_time (procs (ran p s) ! p) = 0"
      using assms(2) rt by (simp add: ran_nth)
    have u: "time_in_current_quantum (procs (ran p s) ! p) = time_slice p s"
      using assms(2) rt rem by (simp add: ran_nth)
    from r0 u chain show "remaining_time (procs (ran p s) ! p) = 0 \<and>
            time_in_current_quantum (procs (ran p s) ! p) = time_slice p s \<and>
            completes p (ran p s) (dispatch p s)"
      by simp
  qed
  from body chain one exact cpu show ?thesis
    by blast
qed

text \<open>
  A CPU-bound process of burst 10 alone: it uses up the quantum of level 0 and is
  completed, not demoted. And the first round of the program's own run: process 1 uses up
  the quantum with 90 units left and is demoted to level 1.
\<close>

theorem outcome_order_witness:
  "get_next_process (check_arrivals exact_fit_start) =
     (Some 0, snd (get_next_process (check_arrivals exact_fit_start))) \<and>
   0 < length (procs (snd (get_next_process (check_arrivals exact_fit_start)))) \<and>
   remaining_time (procs (ran 0 (snd (get_next_process (check_arrivals exact_fit_start)))) ! 0) = 0 \<and>
   time_slice 0 (snd (get_next_process (check_arrivals exact_fit_start)))
     \<le> time_in_current_quantum
          (procs (ran 0 (snd (get_next_process (check_arrivals exact_fit_start)))) ! 0) \<and>
   completes 0 (ran 0 (snd (get_next_process (check_arrivals exact_fit_start))))
     (fst (loop_body exact_fit_start)) \<and>
   \<not> demoted 0 0 (ran 0 (snd (get_next_process (check_arrivals exact_fit_start))))
     (fst (loop_body exact_fit_start)) \<and>
   get_next_process (check_arrivals main_start) =
     (Some 0, snd (get_next_process (check_arrivals main_start))) \<and>
   remaining_time (procs (ran 0 (snd (get_next_process (check_arrivals main_start)))) ! 0) = 90 \<and>
   count (queues (ran 0 (snd (get_next_process (check_arrivals main_start)))) ! 1) < MAX_PROCESSES \<and>
   1 < length (queues (ran 0 (snd (get_next_process (check_arrivals main_start))))) \<and>
   demoted 0 0 (ran 0 (snd (get_next_process (check_arrivals main_start))))
     (fst (loop_body main_start)) \<and>
   processes (queues (fst (loop_body main_start)) ! 1) = [0]"
proof -
  let ?s = "snd (get_next_process (check_arrivals exact_fit_start))"
  let ?m = "snd (get_next_process (check_arrivals main_start))"
  have h1: "get_next_process (check_arrivals exact_fit_start) = (Some 0, ?s)"
    by code_simp
  have h2: "0 < length (procs ?s)"
    by code_simp
  have h3: "remaining_time (procs (ran 0 ?s) ! 0) = 0"
    by code_simp
  have h4: "time_slice 0 ?s \<le> time_in_current_quantum (procs (ran 0 ?s) ! 0)"
    by code_simp
  have h5: "current_queue (procs ?s ! 0) = 0"
    by code_simp
  note T = outcome_order [OF h1 h2]
  have body: "loop_body exact_fit_start = (dispatch 0 ?s, False)"
    using T by blast
  have "remaining_time (procs (ran 0 ?s) ! 0) = 0 \<and>
        time_slice 0 ?s \<le> time_in_current_quantum (procs (ran 0 ?s) ! 0) \<longrightarrow>
          completes 0 (ran 0 ?s) (dispatch 0 ?s) \<and>
          \<not> demoted 0 (current_queue (procs ?s ! 0)) (ran 0 ?s) (dispatch 0 ?s)"
    using T by blast
  with h3 h4 have "completes 0 (ran 0 ?s) (dispatch 0 ?s) \<and>
                   \<not> demoted 0 (current_queue (procs ?s ! 0)) (ran 0 ?s) (dispatch 0 ?s)"
    by blast
  then have a: "completes 0 (ran 0 ?s) (fst (loop_body exact_fit_start)) \<and>
                \<not> demoted 0 0 (ran 0 ?s) (fst (loop_body exact_fit_start))"
    unfolding body fst_conv h5 by blast
  have m1: "get_next_process (check_arrivals main_start) = (Some 0, ?m)"
    by code_simp
  have m2: "0 < length (procs ?m)"
    by code_simp
  have m3: "remaining_time (procs (ran 0 ?m) ! 0) = 90"
    by code_simp
  have m4: "is_io_bound (procs (ran 0 ?m) ! 0) = 0"
    by code_simp
  have m5: "time_slice 0 ?m \<le> time_in_current_quantum (procs (ran 0 ?m) ! 0)"
    by code_simp
  have m6: "current_queue (procs ?m ! 0) = 0"
    by code_simp
  have m7: "count (queues (ran 0 ?m) ! 1) < MAX_PROCESSES"
    by code_simp
  have m8: "1 < length (queues (ran 0 ?m))"
    by code_simp
  have m9: "processes (queues (ran 0 ?m) ! 1) = []"
    by code_simp
  have m10: "next_queue 0 = 1"
    by code_simp
  note M = outcome_order [OF m1 m2]
  have mbody: "loop_body main_start = (dispatch 0 ?m, False)"
    using M by blast
  have "if remaining_time (procs (ran 0 ?m) ! 0) = 0
          then completes 0 (ran 0 ?m) (dispatch 0 ?m)
        else if is_io_bound (procs (ran 0 ?m) ! 0) \<noteq> 0 \<and> run_time 0 ?m < time_slice 0 ?m
          then yields 0 (current_queue (procs ?m ! 0)) (ran 0 ?m) (dispatch 0 ?m)
        else if time_slice 0 ?m \<le> time_in_current_quantum (procs (ran 0 ?m) ! 0)
          then demoted 0 (current_queue (procs ?m ! 0)) (ran 0 ?m) (dispatch 0 ?m)
        else returned 0 (current_queue (procs ?m ! 0)) (ran 0 ?m) (dispatch 0 ?m)"
    using M by blast
  with m3 m4 m5 have "demoted 0 (current_queue (procs ?m ! 0)) (ran 0 ?m) (dispatch 0 ?m)"
    by simp
  then have b: "demoted 0 0 (ran 0 ?m) (fst (loop_body main_start))"
    unfolding mbody fst_conv m6 by blast
  then have "enqueued 0 1 (ran 0 ?m) (fst (loop_body main_start))"
    by (simp add: demoted_def m10)
  with m7 m8 m9 have c: "processes (queues (fst (loop_body main_start)) ! 1) = [0]"
    by (simp add: enqueued_def)
  from h1 h2 h3 h4 a m1 m3 m7 m8 b c show ?thesis
    by blast
qed

section \<open>The idle branch\<close>

lemma fold_next_arrival:
  assumes "- 1 \<le> now" and "acc = - 1 \<or> now < acc"
  shows "fold (next_arrival_step now) ps acc =
           (let C = map arrival_time (filter (\<lambda>P. remaining_time P > 0 \<and> arrival_time P > now) ps)
            in if acc = - 1 then (if C = [] then - 1 else Min (set C))
               else Min (insert acc (set C)))"
  using assms(2)
proof (induction ps arbitrary: acc)
  case Nil
  then show ?case by simp
next
  case (Cons P ps)
  let ?C = "map arrival_time (filter (\<lambda>P. remaining_time P > 0 \<and> arrival_time P > now) ps)"
  show ?case
  proof (cases "remaining_time P > 0 \<and> arrival_time P > now")
    case False
    then have "next_arrival_step now P acc = acc"
      by (auto simp: next_arrival_step_def)
    moreover from False have
      "filter (\<lambda>P. remaining_time P > 0 \<and> arrival_time P > now) (P # ps) =
       filter (\<lambda>P. remaining_time P > 0 \<and> arrival_time P > now) ps"
      by auto
    ultimately show ?thesis
      using Cons.IH [OF Cons.prems] by (simp only: fold_Cons o_apply)
  next
    case True
    with assms(1) have ne: "arrival_time P \<noteq> - 1" and gt: "now < arrival_time P"
      by simp_all
    let ?acc' = "next_arrival_step now P acc"
    have acc': "?acc' = (if acc = - 1 then arrival_time P else min (arrival_time P) acc)"
      using True by (auto simp: next_arrival_step_def min_def)
    have ok: "?acc' = - 1 \<or> now < ?acc'"
      using Cons.prems gt acc' by (auto simp: min_def)
    have ne': "?acc' \<noteq> - 1"
      using acc' ne Cons.prems assms(1) by (auto simp: min_def)
    have "fold (next_arrival_step now) (P # ps) acc = Min (insert ?acc' (set ?C))"
      using Cons.IH [OF ok] ne' by (simp add: Let_def)
    also have "\<dots> = (if acc = - 1 then Min (insert (arrival_time P) (set ?C))
                      else Min (insert acc (insert (arrival_time P) (set ?C))))"
    proof (cases "set ?C = {}")
      case True
      then show ?thesis
        using acc' by (simp add: min.commute)
    next
      case False
      then show ?thesis
        using acc' by (simp add: min.assoc min.commute)
    qed
    finally show ?thesis
      using True by (simp add: Let_def)
  qed
qed

lemma find_next_arrival_min:
  assumes "- 1 \<le> current_time s"
  shows "find_next_arrival s =
           (if future_arrivals s = [] then - 1 else Min (set (future_arrivals s)))"
  using fold_next_arrival [OF assms, of "- 1" "procs s"]
  by (simp add: find_next_arrival_def future_arrivals_def Let_def)

lemma future_arrivals_later:
  "a \<in> set (future_arrivals s) \<Longrightarrow> current_time s < a"
  by (auto simp: future_arrivals_def)

lemma min_future_arrival:
  assumes "future_arrivals s \<noteq> []"
  shows "current_time s < Min (set (future_arrivals s))"
proof -
  have "Min (set (future_arrivals s)) \<in> set (future_arrivals s)"
    using assms by (intro Min_in) simp_all
  then show ?thesis
    by (rule future_arrivals_later)
qed

lemma future_arrivals_trace [simp]: "future_arrivals (s\<lparr>trace := x\<rparr>) = future_arrivals s"
  by (simp add: future_arrivals_def)

lemma idle_skips:
  assumes "- 1 \<le> current_time s" and "future_arrivals s \<noteq> []"
  shows "idle s = (s\<lparr>trace := trace s @ [Idle (current_time s)],
                      current_time := Min (set (future_arrivals s))\<rparr>, False)"
proof -
  let ?s1 = "s\<lparr>trace := trace s @ [Idle (current_time s)]\<rparr>"
  have "find_next_arrival ?s1 = Min (set (future_arrivals s))"
    using assms by (simp add: find_next_arrival_min)
  moreover have "Min (set (future_arrivals s)) \<noteq> - 1"
    using min_future_arrival [OF assms(2)] assms(1) by simp
  ultimately show ?thesis
    by (simp add: idle_def Let_def)
qed

lemma idle_aborts:
  assumes "- 1 \<le> current_time s" and "future_arrivals s = []"
  shows "idle s = (s\<lparr>trace := trace s @ [Idle (current_time s), Error]\<rparr>, True)"
proof -
  let ?s1 = "s\<lparr>trace := trace s @ [Idle (current_time s)]\<rparr>"
  have "find_next_arrival ?s1 = - 1"
    using assms by (simp add: find_next_arrival_min)
  then show ?thesis
    by (simp add: idle_def Let_def)
qed

lemma highest_nonempty_None:
  assumes "highest_nonempty s = None"
  shows "processes (queues s ! 0) = []" and "processes (queues s ! 1) = []"
    and "processes (queues s ! 2) = []"
proof -
  have "[0..<NUM_QUEUES] = [0, 1, 2]"
    by (simp add: NUM_QUEUES_def upt_rec)
  with assms show "processes (queues s ! 0) = []" and "processes (queues s ! 1) = []"
    and "processes (queues s ! 2) = []"
    by (simp_all add: highest_nonempty_def count_def split: if_splits)
qed

lemma get_next_process_None:
  assumes "get_next_process s = (None, s1)"
  shows "s1 = priority_boost s" and "highest_nonempty (priority_boost s) = None"
  using assms by (simp_all add: get_next_process_def Let_def split: option.splits)

lemma boost_level_empty:
  assumes "processes (queues s ! q) = []" and "q < length (queues s)"
  shows "boost_level q s = s"
proof -
  have "(queues s ! q)\<lparr>processes := []\<rparr> = queues s ! q"
    using assms(1) by simp
  then have "(queues s)[q := (queues s ! q)\<lparr>processes := []\<rparr>] = queues s"
    by (simp only: list_update_id)
  then show ?thesis
    by (simp add: boost_level_def Let_def assms(1))
qed

lemma priority_boost_nothing_queued:
  assumes len: "length (queues s) = NUM_QUEUES"
    and empty: "processes (queues (priority_boost s) ! 0) = []"
  shows "procs (priority_boost s) = procs s" and "queues (priority_boost s) = queues s"
proof -
  have "procs (priority_boost s) = procs s \<and> queues (priority_boost s) = queues s"
  proof (cases "boost_interval s \<le> current_time s - last_boost_time s")
    case False
    then show ?thesis
      by (simp add: priority_boost_idle)
  next
    case True
    have "processes (queues s ! 0) @
            take (MAX_PROCESSES - count (queues s ! 0))
              (processes (queues s ! 1) @ processes (queues s ! 2)) = []"
      using priority_boost_queues(1) [OF True len] empty by simp
    then have e: "processes (queues s ! 1) = []" "processes (queues s ! 2) = []"
      by (auto simp: count_def MAX_PROCESSES_def)
    let ?s1 = "s\<lparr>trace := trace s @ [Boost (current_time s)]\<rparr>"
    have "boost_level 1 ?s1 = ?s1"
      using e len by (intro boost_level_empty) (simp_all add: NUM_QUEUES_def)
    moreover have "boost_level 2 ?s1 = ?s1"
      using e len by (intro boost_level_empty) (simp_all add: NUM_QUEUES_def)
    ultimately have "priority_boost s = ?s1\<lparr>last_boost_time := current_time s\<rparr>"
      using priority_boost_fires [OF True] by simp
    then show ?thesis
      by simp
  qed
  then show "procs (priority_boost s) = procs s" and "queues (priority_boost s) = queues s"
    by simp_all
qed

lemma check_arrival_nothing_queued:
  assumes "processes (queues (check_arrival i s) ! 0) = []" and "0 < length (queues s)"
  shows "check_arrival i s = s"
proof (cases "arrival_time (procs s ! i) = current_time s")
  case False
  then show ?thesis
    by (simp add: check_arrival_def)
next
  case True
  let ?s1 = "s\<lparr>trace := trace s @ [Arrives (current_time s) (proc_id (procs s ! i))
                                   (burst_time (procs s ! i)) (is_io_bound (procs s ! i) \<noteq> 0)]\<rparr>"
  have "processes (queues (add_process_to_queue i 0 ?s1) ! 0) =
          processes (queues ?s1 ! 0) @ (if count (queues ?s1 ! 0) < MAX_PROCESSES then [i] else [])"
    using assms(2) by (intro add_process_to_queue_level) simp
  with assms(1) True have "processes (queues s ! 0) = [] \<and> \<not> count (queues s ! 0) < MAX_PROCESSES"
    by (simp add: check_arrival_def split: if_splits)
  then have False
    by (auto simp: count_def MAX_PROCESSES_def)
  then show ?thesis ..
qed

lemma check_arrival_grows:
  assumes "processes (queues s ! 0) \<noteq> []" and "0 < length (queues s)"
  shows "processes (queues (check_arrival i s) ! 0) \<noteq> []"
  using assms by (simp add: check_arrival_def add_process_to_queue_level)

lemma fold_check_arrival_nothing_queued:
  assumes "processes (queues (fold check_arrival is s) ! 0) = []" and "0 < length (queues s)"
  shows "fold check_arrival is s = s"
  using assms
proof (induction "is" arbitrary: s)
  case Nil
  then show ?case by simp
next
  case (Cons i "is")
  have pos: "0 < length (queues (check_arrival i s))"
    using Cons.prems(2) by simp
  from Cons.prems(1) have "processes (queues (fold check_arrival is (check_arrival i s)) ! 0) = []"
    by simp
  then have same: "fold check_arrival is (check_arrival i s) = check_arrival i s"
    using pos by (rule Cons.IH)
  with Cons.prems(1) have "processes (queues (check_arrival i s) ! 0) = []"
    by simp
  then have "check_arrival i s = s"
    using Cons.prems(2) by (rule check_arrival_nothing_queued)
  with same show ?case
    by simp
qed

lemma nothing_runnable:
  assumes "get_next_process (check_arrivals s) = (None, s1)"
    and len: "length (queues s) = NUM_QUEUES"
  shows "procs s1 = procs s" and "queues s1 = queues s"
    and "current_time s1 = current_time s" and "completed s1 = completed s"
    and "\<forall>Q \<in> set (queues s). processes Q = []"
proof -
  let ?t = "check_arrivals s"
  have s1: "s1 = priority_boost ?t" and none: "highest_nonempty (priority_boost ?t) = None"
    using get_next_process_None [OF assms(1)] by simp_all
  note e = highest_nonempty_None [OF none]
  have lent: "length (queues ?t) = NUM_QUEUES"
    using len by simp
  have pb: "procs (priority_boost ?t) = procs ?t" "queues (priority_boost ?t) = queues ?t"
    using priority_boost_nothing_queued [OF lent e(1)] by simp_all
  have "processes (queues ?t ! 0) = []"
    using e(1) pb(2) by simp
  then have t: "?t = s"
    unfolding check_arrivals_def using len
    by (intro fold_check_arrival_nothing_queued) (simp_all add: NUM_QUEUES_def)
  show "procs s1 = procs s" and "queues s1 = queues s"
    using s1 pb t by simp_all
  show "current_time s1 = current_time s" and "completed s1 = completed s"
    using s1 by simp_all
  have "queues s = [queues s ! 0, queues s ! 1, queues s ! 2]"
    using len by (simp add: NUM_QUEUES_def list_eq_iff_nth_eq nth_Cons' eval_nat_numeral less_Suc_eq)
  moreover have "processes (queues s ! 0) = []" "processes (queues s ! 1) = []"
    "processes (queues s ! 2) = []"
    using e pb(2) t by simp_all
  ultimately show "\<forall>Q \<in> set (queues s). processes Q = []"
    by (metis empty_iff empty_set set_ConsD)
qed

text \<open>
  C7. When the scheduler returns no process in a round (the clock not negative, the three
  queues in place), every level is empty and the processes are as the round found them.
  If some unfinished process has an arrival time after the current time, the round prints
  the idle line, sets the clock to the least such arrival time, which is later than the
  current time, and the loop goes on. If there is none, the round prints the idle line and
  the error and leaves the loop by \<open>break\<close>; so when unfinished processes remain
  (\<open>completed < n\<close>), the run returns with that state instead of looping.
\<close>

theorem idle_handling:
  assumes sched: "get_next_process (check_arrivals s) = (None, s1)"
    and clock: "0 \<le> current_time s"
    and len: "length (queues s) = NUM_QUEUES"
  shows "procs s1 = procs s \<and> current_time s1 = current_time s \<and>
         (\<forall>Q \<in> set (queues s). processes Q = []) \<and>
         (future_arrivals s \<noteq> [] \<longrightarrow>
            loop_body s =
              (s1\<lparr>trace := trace s1 @ [Idle (current_time s)],
                  current_time := Min (set (future_arrivals s))\<rparr>, False) \<and>
            current_time s < Min (set (future_arrivals s))) \<and>
         (future_arrivals s = [] \<longrightarrow>
            loop_body s = (s1\<lparr>trace := trace s1 @ [Idle (current_time s), Error]\<rparr>, True)) \<and>
         (future_arrivals s = [] \<and> completed s < length (procs s) \<longrightarrow>
            run_loop s = Some (s1\<lparr>trace := trace s1 @ [Idle (current_time s), Error]\<rparr>))"
proof -
  note n = nothing_runnable [OF sched len]
  have fa: "future_arrivals s1 = future_arrivals s"
    using n(1,3) by (simp add: future_arrivals_def)
  have clock1: "- 1 \<le> current_time s1"
    using clock n(3) by simp
  have body: "loop_body s = idle s1"
    using sched by (simp add: loop_body_def)
  have skip: "future_arrivals s \<noteq> [] \<longrightarrow>
            loop_body s =
              (s1\<lparr>trace := trace s1 @ [Idle (current_time s)],
                  current_time := Min (set (future_arrivals s))\<rparr>, False) \<and>
            current_time s < Min (set (future_arrivals s))"
    using idle_skips [OF clock1] min_future_arrival [of s] fa n(3) body by simp
  have abort: "future_arrivals s = [] \<longrightarrow>
            loop_body s = (s1\<lparr>trace := trace s1 @ [Idle (current_time s), Error]\<rparr>, True)"
    using idle_aborts [OF clock1] fa n(3) body by simp
  have returns: "future_arrivals s = [] \<and> completed s < length (procs s) \<longrightarrow>
            run_loop s = Some (s1\<lparr>trace := trace s1 @ [Idle (current_time s), Error]\<rparr>)"
  proof (intro impI, elim conjE)
    assume "future_arrivals s = []" and "completed s < length (procs s)"
    with abort show "run_loop s = Some (s1\<lparr>trace := trace s1 @ [Idle (current_time s), Error]\<rparr>)"
      by (subst run_loop.simps) simp
  qed
  from n(1,3,5) skip abort returns show ?thesis
    by blast
qed

text \<open>
  The idle round of the run on \<open>io_only\<close> moves the clock from 2 to 12; the last
  round of the program's own run aborts.
\<close>

theorem idle_handling_witness:
  "get_next_process (check_arrivals idle_round_start) =
     (None, snd (get_next_process (check_arrivals idle_round_start))) \<and>
   0 \<le> current_time idle_round_start \<and>
   length (queues idle_round_start) = NUM_QUEUES \<and>
   current_time idle_round_start = 2 \<and>
   future_arrivals idle_round_start = [12] \<and>
   current_time (fst (loop_body idle_round_start)) = 12 \<and>
   \<not> snd (loop_body idle_round_start) \<and>
   get_next_process (check_arrivals abort_round_start) =
     (None, snd (get_next_process (check_arrivals abort_round_start))) \<and>
   0 \<le> current_time abort_round_start \<and>
   length (queues abort_round_start) = NUM_QUEUES \<and>
   future_arrivals abort_round_start = [] \<and>
   completed abort_round_start < length (procs abort_round_start) \<and>
   run_loop abort_round_start =
     Some ((snd (get_next_process (check_arrivals abort_round_start)))
             \<lparr>trace := trace (snd (get_next_process (check_arrivals abort_round_start))) @
                         [Idle (current_time abort_round_start), Error]\<rparr>)"
proof -
  let ?i = "snd (get_next_process (check_arrivals idle_round_start))"
  let ?a = "snd (get_next_process (check_arrivals abort_round_start))"
  have i1: "get_next_process (check_arrivals idle_round_start) = (None, ?i)"
    by code_simp
  have i2: "0 \<le> current_time idle_round_start"
    by code_simp
  have i3: "length (queues idle_round_start) = NUM_QUEUES"
    by code_simp
  have i4: "current_time idle_round_start = 2"
    by code_simp
  have i5: "future_arrivals idle_round_start = [12]"
    by code_simp
  note I = idle_handling [OF i1 i2 i3]
  have "future_arrivals idle_round_start \<noteq> []"
    by (simp add: i5)
  with I have "loop_body idle_round_start =
              (?i\<lparr>trace := trace ?i @ [Idle (current_time idle_round_start)],
                  current_time := Min (set (future_arrivals idle_round_start))\<rparr>, False)"
    by blast
  then have i6: "current_time (fst (loop_body idle_round_start)) = 12"
    and i7: "\<not> snd (loop_body idle_round_start)"
    by (simp_all add: i5)
  have a1: "get_next_process (check_arrivals abort_round_start) = (None, ?a)"
    by code_simp
  have a2: "0 \<le> current_time abort_round_start"
    by code_simp
  have a3: "length (queues abort_round_start) = NUM_QUEUES"
    by code_simp
  have a4: "future_arrivals abort_round_start = []"
    by code_simp
  have a5: "completed abort_round_start < length (procs abort_round_start)"
    by code_simp
  note A = idle_handling [OF a1 a2 a3]
  from A a4 a5 have a6: "run_loop abort_round_start =
     Some (?a\<lparr>trace := trace ?a @ [Idle (current_time abort_round_start), Error]\<rparr>)"
    by blast
  from i1 i2 i3 i4 i5 i6 i7 a1 a2 a3 a4 a5 a6 show ?thesis
    by blast
qed

section \<open>The remaining burst\<close>

lemma quanta_nonneg: "l < NUM_QUEUES \<Longrightarrow> 0 \<le> quanta ! l"
  by (auto simp: NUM_QUEUES_def quanta_def nth_Cons' less_Suc_eq eval_nat_numeral)

lemma sched_inv_queues_length: "sched_inv s \<Longrightarrow> length (queues s) = NUM_QUEUES"
proof -
  assume "sched_inv s"
  then have "length (map time_quantum (queues s)) = length quanta"
    by (simp add: sched_inv_def)
  then show ?thesis
    by (simp add: quanta_def NUM_QUEUES_def)
qed

lemma sched_inv_quantum:
  assumes "sched_inv s" and "l < NUM_QUEUES"
  shows "time_quantum (queues s ! l) = quanta ! l"
proof -
  have "l < length (queues s)"
    using assms by (simp add: sched_inv_queues_length)
  then have "time_quantum (queues s ! l) = map time_quantum (queues s) ! l"
    by simp
  with assms(1) show ?thesis
    by (simp add: sched_inv_def)
qed

lemma sched_inv_proc: "sched_inv s \<Longrightarrow> p < length (procs s) \<Longrightarrow> proc_ok (procs s ! p)"
  by (simp add: sched_inv_def)

lemma sched_inv_fields [simp]:
  "sched_inv (s\<lparr>trace := t\<rparr>) = sched_inv s"
  "sched_inv (s\<lparr>completed := c\<rparr>) = sched_inv s"
  "sched_inv (s\<lparr>current_time := n\<rparr>) = sched_inv s"
  "sched_inv (s\<lparr>last_boost_time := b\<rparr>) = sched_inv s"
  by (simp_all add: sched_inv_def refs_valid_def)

lemma procs_ok_update:
  assumes "\<forall>P \<in> set xs. proc_ok P" and "proc_ok v"
  shows "\<forall>P \<in> set (xs[p := v]). proc_ok P"
  using assms set_update_subset_insert [of xs p v] by auto

lemma sched_inv_procs_update:
  assumes "sched_inv s" and "proc_ok v"
  shows "sched_inv (s\<lparr>procs := (procs s)[p := v]\<rparr>)"
proof -
  have "\<forall>P \<in> set ((procs s)[p := v]). proc_ok P"
    using assms by (intro procs_ok_update) (simp_all add: sched_inv_def)
  with assms(1) show ?thesis
    by (simp add: sched_inv_def refs_valid_def)
qed

lemma refs_valid_queue_update:
  assumes "refs_valid s" and "\<forall>p \<in> set (processes Q). p < length (procs s)"
  shows "refs_valid (s\<lparr>queues := (queues s)[l := Q]\<rparr>)"
  using assms set_update_subset_insert [of "queues s" l Q]
  by (auto simp: refs_valid_def)

lemma refs_valid_level:
  assumes "refs_valid s" and "l < length (queues s)" and "p \<in> set (processes (queues s ! l))"
  shows "p < length (procs s)"
  using assms nth_mem [of l "queues s"] by (auto simp: refs_valid_def)

lemma sched_inv_add:
  assumes inv: "sched_inv s" and p: "p < length (procs s)" and l: "l < NUM_QUEUES"
  shows "sched_inv (add_process_to_queue p l s)"
proof (cases "count (queues s ! l) < MAX_PROCESSES")
  case False
  with inv show ?thesis
    by (simp add: add_process_to_queue_def)
next
  case True
  let ?Q = "(queues s ! l)\<lparr>processes := processes (queues s ! l) @ [p]\<rparr>"
  let ?v = "(procs s ! p)\<lparr>current_queue := l, time_in_current_quantum := 0\<rparr>"
  have len: "l < length (queues s)"
    using inv l by (simp add: sched_inv_queues_length)
  have "proc_ok (procs s ! p)"
    using inv p by (rule sched_inv_proc)
  then have v: "proc_ok ?v"
    using l by (simp add: proc_ok_def quanta_nonneg)
  have "\<forall>x \<in> set (processes ?Q). x < length (procs s)"
    using inv len p by (auto simp: sched_inv_def dest: refs_valid_level)
  then have r: "refs_valid (s\<lparr>queues := (queues s)[l := ?Q]\<rparr>)"
    using inv by (intro refs_valid_queue_update) (simp_all add: sched_inv_def)
  have q: "map time_quantum ((queues s)[l := ?Q]) = map time_quantum (queues s)"
    by (rule map_update_same) simp
  have "sched_inv (s\<lparr>queues := (queues s)[l := ?Q]\<rparr>)"
    using inv r q by (simp add: sched_inv_def)
  then have "sched_inv (s\<lparr>queues := (queues s)[l := ?Q]\<rparr>\<lparr>procs := (procs s)[p := ?v]\<rparr>)"
    using v sched_inv_procs_update [of "s\<lparr>queues := (queues s)[l := ?Q]\<rparr>" ?v p] by simp
  with True show ?thesis
    by (simp add: add_process_to_queue_def)
qed

lemma sched_inv_fold_add:
  assumes "sched_inv s" and "\<forall>x \<in> set xs. x < length (procs s)" and "l < NUM_QUEUES"
  shows "sched_inv (fold (\<lambda>p. add_process_to_queue p l) xs s)"
  using assms by (induction xs arbitrary: s) (simp_all add: sched_inv_add)

lemma sched_inv_boost_level:
  assumes inv: "sched_inv s" and q: "q < NUM_QUEUES"
  shows "sched_inv (boost_level q s)"
proof -
  let ?s' = "fold (\<lambda>p. add_process_to_queue p 0) (processes (queues s ! q)) s"
  have len: "q < length (queues s)"
    using inv q by (simp add: sched_inv_queues_length)
  have "\<forall>x \<in> set (processes (queues s ! q)). x < length (procs s)"
    using inv len by (auto simp: sched_inv_def dest: refs_valid_level)
  then have inv': "sched_inv ?s'"
    using inv by (intro sched_inv_fold_add) (simp_all add: NUM_QUEUES_def)
  have r: "refs_valid (?s'\<lparr>queues := (queues ?s')[q := (queues ?s' ! q)\<lparr>processes := []\<rparr>]\<rparr>)"
    using inv' by (intro refs_valid_queue_update) (simp_all add: sched_inv_def)
  have "map time_quantum ((queues ?s')[q := (queues ?s' ! q)\<lparr>processes := []\<rparr>]) =
        map time_quantum (queues ?s')"
    by (rule map_update_same) simp
  with inv' r show ?thesis
    by (simp add: boost_level_def Let_def sched_inv_def)
qed

lemma sched_inv_priority_boost:
  assumes "sched_inv s"
  shows "sched_inv (priority_boost s)"
proof (cases "boost_interval s \<le> current_time s - last_boost_time s")
  case False
  with assms show ?thesis
    by (simp add: priority_boost_idle)
next
  case True
  have "sched_inv (boost_level 2 (boost_level 1 (s\<lparr>trace := trace s @ [Boost (current_time s)]\<rparr>)))"
    using assms by (intro sched_inv_boost_level) (simp_all add: NUM_QUEUES_def)
  then show ?thesis
    by (simp add: priority_boost_fires [OF True])
qed

lemma highest_nonempty_Some:
  assumes "highest_nonempty s = Some q"
  shows "q < NUM_QUEUES" and "processes (queues s ! q) \<noteq> []"
  using assms by (auto simp: highest_nonempty_def find_Some_iff count_def)

lemma sched_inv_get_next_process:
  assumes inv: "sched_inv s" and sched: "get_next_process s = (r, s')"
  shows "sched_inv s'" and "r = Some p \<Longrightarrow> p < length (procs s')"
proof -
  let ?s1 = "priority_boost s"
  have inv1: "sched_inv ?s1"
    using inv by (rule sched_inv_priority_boost)
  have "sched_inv s' \<and> (r = Some p \<longrightarrow> p < length (procs s'))"
  proof (cases "highest_nonempty ?s1")
    case None
    with sched inv1 show ?thesis
      by (auto simp: get_next_process_def Let_def)
  next
    case (Some q)
    note h = highest_nonempty_Some [OF Some]
    let ?Q = "(queues ?s1 ! q)\<lparr>processes := tl (processes (queues ?s1 ! q))\<rparr>"
    have len: "q < length (queues ?s1)"
      using sched_inv_queues_length [OF inv1] h(1) by simp
    have valid: "\<forall>x \<in> set (processes (queues ?s1 ! q)). x < length (procs ?s1)"
      using inv1 len by (auto simp: sched_inv_def dest: refs_valid_level)
    have s': "s' = ?s1\<lparr>queues := (queues ?s1)[q := ?Q]\<rparr>"
      and r: "r = Some (hd (processes (queues ?s1 ! q)))"
      using sched Some by (simp_all add: get_next_process_def Let_def)
    have "\<forall>x \<in> set (processes ?Q). x < length (procs ?s1)"
      using valid h(2) by (auto dest: list.set_sel(2))
    then have "refs_valid (?s1\<lparr>queues := (queues ?s1)[q := ?Q]\<rparr>)"
      using inv1 by (intro refs_valid_queue_update) (simp_all add: sched_inv_def)
    moreover have "map time_quantum ((queues ?s1)[q := ?Q]) = map time_quantum (queues ?s1)"
      by (rule map_update_same) simp
    ultimately have "sched_inv s'"
      using inv1 unfolding s' by (simp add: sched_inv_def)
    moreover have "hd (processes (queues ?s1 ! q)) < length (procs ?s1)"
      using valid h(2) by simp
    ultimately show ?thesis
      using r s' by simp
  qed
  then show "sched_inv s'" and "r = Some p \<Longrightarrow> p < length (procs s')"
    by simp_all
qed

lemma sched_inv_check_arrival:
  assumes "sched_inv s" and "i < length (procs s)"
  shows "sched_inv (check_arrival i s)"
  using assms by (simp add: check_arrival_def sched_inv_add NUM_QUEUES_def)

lemma sched_inv_fold_check_arrival:
  assumes "sched_inv s" and "\<forall>i \<in> set is. i < length (procs s)"
  shows "sched_inv (fold check_arrival is s)"
  using assms by (induction "is" arbitrary: s) (simp_all add: sched_inv_check_arrival)

lemma sched_inv_check_arrivals:
  assumes "sched_inv s"
  shows "sched_inv (check_arrivals s)"
  using assms by (simp add: check_arrivals_def sched_inv_fold_check_arrival)

lemma proc_ok_fields [simp]:
  "proc_ok (P\<lparr>first_run_time := a\<rparr>) = proc_ok P"
  "proc_ok (P\<lparr>completion_time := a\<rparr>) = proc_ok P"
  "proc_ok (P\<lparr>turnaround_time := a\<rparr>) = proc_ok P"
  "proc_ok (P\<lparr>waiting_time := a\<rparr>) = proc_ok P"
  "proc_ok (P\<lparr>arrival_time := a\<rparr>) = proc_ok P"
  by (simp_all add: proc_ok_def)

lemma sched_inv_eqI:
  "sched_inv s \<Longrightarrow> procs t = procs s \<Longrightarrow> queues t = queues s \<Longrightarrow> sched_inv t"
  by (simp add: sched_inv_def refs_valid_def)

lemma proc_ok_reset: "proc_ok P \<Longrightarrow> proc_ok (P\<lparr>time_in_current_quantum := 0\<rparr>)"
  by (simp add: proc_ok_def quanta_nonneg)

lemma sched_inv_mark_first_run:
  assumes "sched_inv s" and "p < length (procs s)"
  shows "sched_inv (mark_first_run p s)"
proof -
  have "proc_ok (procs s ! p)"
    using assms by (rule sched_inv_proc)
  then show ?thesis
    using assms(1) by (simp add: mark_first_run_def sched_inv_procs_update)
qed

lemma run_time_bounds:
  assumes inv: "sched_inv s" and p: "p < length (procs s)"
  shows "0 \<le> run_time p s" and "run_time p s \<le> remaining_time (procs s ! p)"
    and "is_io_bound (procs s ! p) = 0 \<Longrightarrow>
           time_in_current_quantum (procs s ! p) + run_time p s \<le> time_slice p s"
    and "time_slice p s = quanta ! current_queue (procs s ! p)"
proof -
  have ok: "proc_ok (procs s ! p)"
    using inv p by (rule sched_inv_proc)
  then have lvl: "current_queue (procs s ! p) < NUM_QUEUES"
    by (simp add: proc_ok_def)
  show ts: "time_slice p s = quanta ! current_queue (procs s ! p)"
    using inv lvl by (simp add: time_slice_def sched_inv_quantum)
  have nonneg: "0 \<le> time_slice p s"
    using ts lvl by (simp add: quanta_nonneg)
  then have fifth: "0 \<le> c_div (time_slice p s) 5"
    by (simp add: c_div_nonneg)
  show "0 \<le> run_time p s"
    using ok ts fifth by (auto simp: run_time_def compute_run_time_def proc_ok_def)
  show "run_time p s \<le> remaining_time (procs s ! p)"
    by (simp add: run_time_def compute_run_time_def)
  show "is_io_bound (procs s ! p) = 0 \<Longrightarrow>
           time_in_current_quantum (procs s ! p) + run_time p s \<le> time_slice p s"
    by (simp add: run_time_def compute_run_time_def)
qed

lemma time_slice_mark [simp]: "time_slice p (mark_first_run p' s) = time_slice p s"
  by (simp add: time_slice_def)

lemma run_time_mark [simp]: "run_time p (mark_first_run p' s) = run_time p s"
  by (simp add: run_time_def compute_run_time_def)

lemma sched_inv_ran:
  assumes inv: "sched_inv s" and p: "p < length (procs s)"
  shows "sched_inv (ran p s)"
proof -
  let ?s1 = "mark_first_run p s"
  let ?P = "procs ?s1 ! p"
  have inv1: "sched_inv ?s1"
    using inv p by (rule sched_inv_mark_first_run)
  have p1: "p < length (procs ?s1)"
    using p by simp
  note b = run_time_bounds [OF inv1 p1]
  have ok: "proc_ok ?P"
    using inv1 p1 by (rule sched_inv_proc)
  have "proc_ok (?P\<lparr>remaining_time := remaining_time ?P - run_time p s,
                    time_in_current_quantum := time_in_current_quantum ?P + run_time p s\<rparr>)"
    using ok b by (simp add: proc_ok_def)
  then have "sched_inv (?s1\<lparr>procs := (procs ?s1)[p := ?P
                  \<lparr>remaining_time := remaining_time ?P - run_time p s,
                   time_in_current_quantum := time_in_current_quantum ?P + run_time p s\<rparr>]\<rparr>)"
    using inv1 by (intro sched_inv_procs_update)
  then show ?thesis
    by (rule sched_inv_eqI) (simp_all add: ran_def run_process_def)
qed

lemma sched_inv_after_run:
  assumes inv: "sched_inv s" and p: "p < length (procs s)" and q: "q < NUM_QUEUES"
  shows "sched_inv (after_run p q ts rt s)"
proof -
  have ok: "proc_ok (procs s ! p)"
    using inv p by (rule sched_inv_proc)
  have fin: "sched_inv (s\<lparr>procs := (procs s)[p := (procs s ! p)
             \<lparr>completion_time := current_time s,
              turnaround_time := current_time s - arrival_time (procs s ! p),
              waiting_time := current_time s - arrival_time (procs s ! p)
                                - burst_time (procs s ! p)\<rparr>]\<rparr>)"
    using inv ok by (intro sched_inv_procs_update) simp_all
  have yield: "sched_inv (s\<lparr>procs := (procs s)[p := (procs s ! p)
             \<lparr>time_in_current_quantum := 0, arrival_time := current_time s + 10\<rparr>]\<rparr>)"
    using inv ok by (intro sched_inv_procs_update) (simp_all add: proc_ok_reset)
  have reset: "sched_inv (s\<lparr>procs := (procs s)[p := (procs s ! p)\<lparr>time_in_current_quantum := 0\<rparr>]\<rparr>)"
    using inv ok by (intro sched_inv_procs_update) (simp_all add: proc_ok_reset)
  have nq: "next_queue q < NUM_QUEUES"
    using q by (simp add: next_queue_def NUM_QUEUES_def)
  have "sched_inv
           (s\<lparr>trace := trace s @ [Demoted (current_time s) (proc_id (procs s ! p)) (next_queue q)],
              procs := (procs s)[p := (procs s ! p)\<lparr>time_in_current_quantum := 0\<rparr>]\<rparr>)"
    using reset by (rule sched_inv_eqI) simp_all
  then have demote: "sched_inv (add_process_to_queue p (next_queue q)
           (s\<lparr>trace := trace s @ [Demoted (current_time s) (proc_id (procs s ! p)) (next_queue q)],
              procs := (procs s)[p := (procs s ! p)\<lparr>time_in_current_quantum := 0\<rparr>]\<rparr>))"
    using p nq by (intro sched_inv_add) simp_all
  have ret: "sched_inv (add_process_to_queue p q
          (s\<lparr>trace := trace s @ [Returned (current_time s) (proc_id (procs s ! p)) q]\<rparr>))"
    using inv p q by (intro sched_inv_add) simp_all
  have fin': "sched_inv
        (s\<lparr>trace := trace s @ [Completed (current_time s) (proc_id (procs s ! p))],
          procs := (procs s)[p := (procs s ! p)
             \<lparr>completion_time := current_time s,
              turnaround_time := current_time s - arrival_time (procs s ! p),
              waiting_time := current_time s - arrival_time (procs s ! p)
                                - burst_time (procs s ! p)\<rparr>],
          completed := completed s + 1\<rparr>)"
    using fin by (rule sched_inv_eqI) simp_all
  have yield': "sched_inv
        (s\<lparr>trace := trace s @ [Yields (current_time s) (proc_id (procs s ! p)) q],
          procs := (procs s)[p := (procs s ! p)
             \<lparr>time_in_current_quantum := 0, arrival_time := current_time s + 10\<rparr>]\<rparr>)"
    using yield by (rule sched_inv_eqI) simp_all
  from fin' yield' demote ret show ?thesis
    by (simp add: after_run_def Let_def next_queue_def)
qed

lemma sched_inv_dispatch:
  assumes inv: "sched_inv s" and p: "p < length (procs s)"
  shows "sched_inv (dispatch p s)"
proof -
  have "proc_ok (procs s ! p)"
    using inv p by (rule sched_inv_proc)
  then have "current_queue (procs s ! p) < NUM_QUEUES"
    by (simp add: proc_ok_def)
  moreover have "sched_inv (ran p s)"
    using inv p by (rule sched_inv_ran)
  ultimately show ?thesis
    using p by (simp add: dispatch_after_run sched_inv_after_run)
qed

lemma sched_inv_idle: "sched_inv s \<Longrightarrow> sched_inv (fst (idle s))"
  by (simp add: idle_def Let_def)

lemma sched_inv_loop_body:
  assumes "sched_inv s"
  shows "sched_inv (fst (loop_body s))"
proof -
  obtain r s' where sched: "get_next_process (check_arrivals s) = (r, s')"
    by (cases "get_next_process (check_arrivals s)")
  have inv: "sched_inv (check_arrivals s)"
    using assms by (rule sched_inv_check_arrivals)
  note n = sched_inv_get_next_process [OF inv sched]
  show ?thesis
  proof (cases r)
    case None
    with sched n(1) show ?thesis
      by (simp add: loop_body_def sched_inv_idle)
  next
    case (Some p)
    with sched n show ?thesis
      by (simp add: loop_body_def sched_inv_dispatch)
  qed
qed

lemma after_run_burst [simp]:
  "map burst_time (procs (after_run p q ts rt s)) = map burst_time (procs s)"
  by (simp add: after_run_def Let_def map_update_same)

lemma run_process_burst [simp]:
  "map burst_time (procs (run_process p q ts rt s)) = map burst_time (procs s)"
  by (simp add: run_process_def map_update_same)

lemma dispatch_burst [simp]:
  "map burst_time (procs (dispatch p s)) = map burst_time (procs s)"
  by (simp add: dispatch_unfold)

lemma list_all2_update_le:
  fixes xs :: "int list"
  assumes "p < length xs \<Longrightarrow> x \<le> xs ! p"
  shows "list_all2 (\<le>) (xs[p := x]) xs"
  using assms
  by (cases "p < length xs") (auto simp: list_all2_conv_all_nth nth_list_update)

lemma list_all2_le_refl: "list_all2 (\<le>) (xs :: int list) xs"
  by (simp add: list_all2_conv_all_nth)

lemma loop_body_burst:
  "map burst_time (procs (fst (loop_body s))) = map burst_time (procs s)"
proof -
  obtain r s' where sched: "get_next_process (check_arrivals s) = (r, s')"
    by (cases "get_next_process (check_arrivals s)")
  then have s': "s' = snd (get_next_process (check_arrivals s))"
    by simp
  have "map burst_time (procs s') = map burst_time (procs s)"
    unfolding s' by simp
  then show ?thesis
    using sched by (cases r) (simp_all add: loop_body_def)
qed

lemma scheduled_process:
  assumes inv: "sched_inv s" and sched: "get_next_process (check_arrivals s) = (Some p, s')"
  shows "sched_inv s'" and "p < length (procs s')"
    and "0 \<le> run_time p s'" and "run_time p s' \<le> remaining_time (procs s' ! p)"
    and "remaining_time (procs s' ! p) = remaining_time (procs s ! p)"
proof -
  have inv1: "sched_inv (check_arrivals s)"
    using inv by (rule sched_inv_check_arrivals)
  show inv': "sched_inv s'" and p: "p < length (procs s')"
    using sched_inv_get_next_process [OF inv1 sched] by simp_all
  show "0 \<le> run_time p s'" and "run_time p s' \<le> remaining_time (procs s' ! p)"
    using run_time_bounds [OF inv' p] by simp_all
  have s': "s' = snd (get_next_process (check_arrivals s))"
    using sched by simp
  have m: "map remaining_time (procs s') = map remaining_time (procs s)"
    unfolding s' by simp
  have "remaining_time (procs s' ! p) = map remaining_time (procs s') ! p"
    using p by simp
  also have "\<dots> = map remaining_time (procs s) ! p"
    by (simp only: m)
  also have "\<dots> = remaining_time (procs s ! p)"
    using p m by (metis length_map nth_map)
  finally show "remaining_time (procs s' ! p) = remaining_time (procs s ! p)" .
qed

lemma loop_body_remaining:
  assumes inv: "sched_inv s"
  shows "list_all2 (\<le>) (map remaining_time (procs (fst (loop_body s))))
           (map remaining_time (procs s))"
proof -
  obtain r s' where sched: "get_next_process (check_arrivals s) = (r, s')"
    by (cases "get_next_process (check_arrivals s)")
  then have s': "s' = snd (get_next_process (check_arrivals s))"
    by simp
  have m: "map remaining_time (procs s') = map remaining_time (procs s)"
    unfolding s' by simp
  show ?thesis
  proof (cases r)
    case None
    with sched m show ?thesis
      by (simp add: loop_body_def list_all2_le_refl)
  next
    case (Some p)
    note b = scheduled_process [OF inv sched [unfolded Some]]
    have "list_all2 (\<le>)
            ((map remaining_time (procs s'))[p := remaining_time (procs s' ! p) - run_time p s'])
            (map remaining_time (procs s'))"
      using b(2,3) by (intro list_all2_update_le) simp
    with sched Some m show ?thesis
      by (simp add: loop_body_def dispatch_remaining)
  qed
qed

lemma loop_step_inv:
  assumes "sched_inv (fst c)"
  shows "sched_inv (fst (loop_step c))"
    and "map burst_time (procs (fst (loop_step c))) = map burst_time (procs (fst c))"
    and "list_all2 (\<le>) (map remaining_time (procs (fst (loop_step c))))
           (map remaining_time (procs (fst c)))"
  using assms
  by (simp_all add: loop_step_def sched_inv_loop_body loop_body_burst loop_body_remaining
                    list_all2_le_refl)

lemma rounds_inv:
  assumes "sched_inv (fst c)"
  shows "sched_inv (fst (rounds k c))"
    and "map burst_time (procs (fst (rounds k c))) = map burst_time (procs (fst c))"
proof -
  have "sched_inv (fst (rounds k c)) \<and>
        map burst_time (procs (fst (rounds k c))) = map burst_time (procs (fst c))"
    using assms by (induction k) (simp_all add: loop_step_inv)
  then show "sched_inv (fst (rounds k c))"
    and "map burst_time (procs (fst (rounds k c))) = map burst_time (procs (fst c))"
    by simp_all
qed

lemma rounds_add: "rounds k (rounds j c) = rounds (k + j) c"
  by (induction k) simp_all

lemma run_loop_rounds:
  assumes "run_loop s = Some t"
  shows "\<exists>k. t = fst (rounds k (s, False))"
proof (rule run_loop.raw_induct [where P = "\<lambda>s t. \<exists>k. t = fst (rounds k (s, False))", OF _ assms])
  fix f :: "State \<Rightarrow> State option" and s t
  assume IH: "\<And>s t. f s = Some t \<Longrightarrow> \<exists>k. t = fst (rounds k (s, False))"
    and eq: "(if completed s < length (procs s)
              then case loop_body s of (s', left) \<Rightarrow> if left then Some s' else f s'
              else Some s) = Some t"
  show "\<exists>k. t = fst (rounds k (s, False))"
  proof (cases "completed s < length (procs s)")
    case False
    with eq have "t = fst (rounds 0 (s, False))"
      by simp
    then show ?thesis ..
  next
    case True
    obtain s' left where body: "loop_body s = (s', left)"
      by (cases "loop_body s")
    have step: "rounds 1 (s, False) = (s', left)"
      using True body by (simp add: loop_step_def)
    show ?thesis
    proof (cases left)
      case True
      with eq \<open>completed s < length (procs s)\<close> body have "t = s'"
        by simp
      with step have "t = fst (rounds 1 (s, False))"
        by simp
      then show ?thesis ..
    next
      case False
      with eq \<open>completed s < length (procs s)\<close> body have "f s' = Some t"
        by simp
      then obtain k where "t = fst (rounds k (s', False))"
        using IH by blast
      with step False have "t = fst (rounds (k + 1) (s, False))"
        by (simp only: rounds_add [symmetric])
      then show ?thesis ..
    qed
  qed
qed

lemma start_state_inv:
  assumes "\<forall>P \<in> set ps. 0 \<le> burst_time P"
  shows "sched_inv (start_state ps g)"
    and "map burst_time (procs (start_state ps g)) = map burst_time ps"
    and "map remaining_time (procs (start_state ps g)) = map burst_time ps"
proof -
  have q: "map time_quantum (queues (start_state ps g)) = quanta"
    by (simp add: start_state_def setup_processes_def init_queues_def quanta_def
                  NUM_QUEUES_def upt_rec)
  have r: "refs_valid (start_state ps g)"
    by (auto simp: start_state_def setup_processes_def init_queues_def refs_valid_def)
  have "0 \<le> quanta ! 0"
    by (simp add: quanta_def)
  with assms have "\<forall>P \<in> set (procs (start_state ps g)). proc_ok P"
    by (auto simp: start_state_def setup_processes_def init_queues_def proc_ok_def
                   NUM_QUEUES_def)
  with q r show "sched_inv (start_state ps g)"
    by (simp add: sched_inv_def)
  show "map burst_time (procs (start_state ps g)) = map burst_time ps"
    and "map remaining_time (procs (start_state ps g)) = map burst_time ps"
    by (simp_all add: start_state_def setup_processes_def init_queues_def)
qed

text \<open>
  C8. For a process list whose bursts are not negative, and any values of the globals:
  the run starts with every remaining burst equal to the burst; after any number of
  rounds of the loop every process has \<open>0 \<le> remaining_time \<le> burst_time\<close>, with
  the burst it was given; no remaining burst is larger after a round than before it;
  whenever a process is dispatched, its run time is not negative, does not exceed its
  remaining burst, and is what the dispatch takes off the remaining burst, and the bounds
  hold right after the run as well, before the outcome is applied; and the state in which
  the run returns, if it does, is the state after some number of rounds.
\<close>

theorem remaining_burst_bounds:
  assumes bursts: "\<forall>P \<in> set ps. 0 \<le> burst_time P"
  shows "map remaining_time (procs (after_rounds 0 ps g)) = map burst_time ps \<and>
         (\<forall>P \<in> set (procs (after_rounds k ps g)).
            0 \<le> remaining_time P \<and> remaining_time P \<le> burst_time P) \<and>
         map burst_time (procs (after_rounds k ps g)) = map burst_time ps \<and>
         list_all2 (\<le>) (map remaining_time (procs (after_rounds (Suc k) ps g)))
                        (map remaining_time (procs (after_rounds k ps g))) \<and>
         (\<forall>p s'. get_next_process (check_arrivals (after_rounds k ps g)) = (Some p, s') \<longrightarrow>
            0 \<le> run_time p s' \<and>
            run_time p s' \<le> remaining_time (procs (after_rounds k ps g) ! p) \<and>
            remaining_time (procs (dispatch p s') ! p) =
              remaining_time (procs (after_rounds k ps g) ! p) - run_time p s' \<and>
            list_all (\<lambda>P. 0 \<le> remaining_time P \<and> remaining_time P \<le> burst_time P)
              (procs (ran p s'))) \<and>
         (\<forall>t. run_mlfq_simulation ps g = Some t \<longrightarrow> (\<exists>j. t = after_rounds j ps g))"
proof -
  let ?c = "(start_state ps g, False)"
  note s = start_state_inv [OF bursts, of g]
  have inv0: "sched_inv (fst ?c)"
    using s(1) by simp
  have inv: "sched_inv (after_rounds k ps g)"
    unfolding after_rounds_def using inv0 by (rule rounds_inv)
  have start: "map remaining_time (procs (after_rounds 0 ps g)) = map burst_time ps"
    using s(3) by (simp add: after_rounds_def)
  have bounds: "\<forall>P \<in> set (procs (after_rounds k ps g)).
                  0 \<le> remaining_time P \<and> remaining_time P \<le> burst_time P"
    using inv by (simp add: sched_inv_def proc_ok_def)
  have same: "map burst_time (procs (after_rounds k ps g)) = map burst_time ps"
    unfolding after_rounds_def using rounds_inv(2) [OF inv0, of k] s(2) by simp
  have "sched_inv (fst (rounds k ?c))"
    using inv0 by (rule rounds_inv)
  then have "list_all2 (\<le>) (map remaining_time (procs (fst (loop_step (rounds k ?c)))))
               (map remaining_time (procs (fst (rounds k ?c))))"
    by (rule loop_step_inv)
  then have shrink: "list_all2 (\<le>) (map remaining_time (procs (after_rounds (Suc k) ps g)))
                        (map remaining_time (procs (after_rounds k ps g)))"
    by (simp add: after_rounds_def)
  have run: "0 \<le> run_time p s' \<and>
            run_time p s' \<le> remaining_time (procs (after_rounds k ps g) ! p) \<and>
            remaining_time (procs (dispatch p s') ! p) =
              remaining_time (procs (after_rounds k ps g) ! p) - run_time p s' \<and>
            list_all (\<lambda>P. 0 \<le> remaining_time P \<and> remaining_time P \<le> burst_time P)
              (procs (ran p s'))"
    if sched: "get_next_process (check_arrivals (after_rounds k ps g)) = (Some p, s')" for p s'
  proof -
    note b = scheduled_process [OF inv sched]
    have "sched_inv (ran p s')"
      using b(1,2) by (rule sched_inv_ran)
    then have "list_all (\<lambda>P. 0 \<le> remaining_time P \<and> remaining_time P \<le> burst_time P)
                 (procs (ran p s'))"
      by (simp add: sched_inv_def proc_ok_def list_all_iff)
    with b show ?thesis
      by (simp add: dispatch_remaining_nth)
  qed
  have final: "\<exists>j. t = after_rounds j ps g" if "run_mlfq_simulation ps g = Some t" for t
    using that run_loop_rounds [of "start_state ps g" t]
    by (simp add: run_mlfq_simulation_def after_rounds_def)
  from start bounds same shrink run final show ?thesis
    by blast
qed

text \<open>Rounds 6 and 7 of the program's own run.\<close>

theorem remaining_burst_bounds_witness:
  "list_all (\<lambda>P. 0 \<le> burst_time P) main_processes \<and>
   map remaining_time (procs (after_rounds 6 main_processes initial_globals)) = [70, 3, 1, 70, 15] \<and>
   map remaining_time (procs (after_rounds 7 main_processes initial_globals)) = [70, 3, 1, 50, 15] \<and>
   map burst_time (procs (after_rounds 6 main_processes initial_globals)) = [100, 5, 5, 80, 15] \<and>
   list_all (\<lambda>P. 0 \<le> remaining_time P \<and> remaining_time P \<le> burst_time P)
     (procs (after_rounds 6 main_processes initial_globals)) \<and>
   list_all2 (\<le>) (map remaining_time (procs (after_rounds (Suc 6) main_processes initial_globals)))
                  (map remaining_time (procs (after_rounds 6 main_processes initial_globals)))"
proof -
  have h: "\<forall>P \<in> set main_processes. 0 \<le> burst_time P"
    by code_simp
  have e1: "map remaining_time (procs (after_rounds 6 main_processes initial_globals)) =
              [70, 3, 1, 70, 15]"
    by code_simp
  have e2: "map remaining_time (procs (after_rounds 7 main_processes initial_globals)) =
              [70, 3, 1, 50, 15]"
    by code_simp
  have e3: "map burst_time (procs (after_rounds 6 main_processes initial_globals)) =
              [100, 5, 5, 80, 15]"
    by code_simp
  from remaining_burst_bounds [OF h, of initial_globals 6] h e1 e2 e3 show ?thesis
    unfolding list_all_iff by blast
qed

section \<open>A second call\<close>


end
